theory Spec2Isabelle
  imports Complex_Main
begin

section \<open>The GAN tutorial notebook (notebooks/gan.ipynb)\<close>

text \<open>
  The notebook is a linear Python script: it defines \<^verbatim>\<open>plot\<close>, prepares an output
  directory, defines the cyclic batch \<^verbatim>\<open>generator\<close>, loads MNIST, defines two dense
  networks, constructs and initialises an inference object, and runs a training loop
  that periodically saves figures. Python integers are \<open>int\<close> (counters that cannot go
  negative are \<open>nat\<close>), 2-d arrays are lists of rows, \<^verbatim>\<open>float32\<close> values are modelled
  as \<open>real\<close>, every \<^verbatim>\<open>raise\<close> is an \<open>Inl\<close> result and the random number generator is
  an explicit state.
\<close>

subsection \<open>Errors\<close>

datatype py_error =
  ValueError | IndexError | OSError | ZeroDivisionError | NameError | AttributeError

subsection \<open>Python slicing\<close>

text \<open>
  \<^verbatim>\<open>a[lo:hi]\<close>, \<^verbatim>\<open>a[lo:]\<close> and \<^verbatim>\<open>a[:hi]\<close> along the first axis: a negative bound counts
  from the end, and every bound is clamped into \<open>[0, len a]\<close>; slicing never raises.
\<close>

definition slice_bound :: "nat \<Rightarrow> int \<Rightarrow> nat" where
  "slice_bound n i = (if i < 0 then nat (max (i + int n) 0) else min (nat i) n)"

definition py_slice :: "'a list \<Rightarrow> int \<Rightarrow> int \<Rightarrow> 'a list" where
  "py_slice xs lo hi =
     (let l = slice_bound (length xs) lo; h = slice_bound (length xs) hi
      in take (h - l) (drop l xs))"

definition py_slice_from :: "'a list \<Rightarrow> int \<Rightarrow> 'a list" where
  "py_slice_from xs lo = drop (slice_bound (length xs) lo) xs"

definition py_slice_to :: "'a list \<Rightarrow> int \<Rightarrow> 'a list" where
  "py_slice_to xs hi = take (slice_bound (length xs) hi) xs"

subsection \<open>The cyclic batch generator\<close>

text \<open>
  \<^verbatim>\<open>
  def generator(array, batch_size):
    start = 0  # pointer to where we are in iteration
    while True:
      stop = start + batch_size
      diff = stop - array.shape[0]
      if diff <= 0:
        batch = array[start:stop]
        start += batch_size
      else:
        batch = np.concatenate((array[start:], array[:diff]))
        start = diff
      batch = batch.astype(np.float32) / 255.0  # normalize pixel intensities
      batch = np.random.binomial(1, batch)  # binarize images
      yield batch
  \<close>
  A generator object is its suspended frame: the two arguments and the local \<open>start\<close>.
  One call of \<^verbatim>\<open>next()\<close> runs the loop body once, up to the \<^verbatim>\<open>yield\<close>.
\<close>

record 'a generator =
  g_array :: "'a list"
  g_batch_size :: int
  g_start :: int

definition generator :: "'a list \<Rightarrow> int \<Rightarrow> 'a generator" where
  "generator array batch_size =
     \<lparr>g_array = array, g_batch_size = batch_size, g_start = 0\<rparr>"

text \<open>The first half of the loop body: the rows selected and the pointer update.\<close>

definition select_batch :: "'a generator \<Rightarrow> 'a list \<times> 'a generator" where
  "select_batch g =
     (let start = g_start g;
          stop = start + g_batch_size g;
          diff = stop - int (length (g_array g))
      in if diff \<le> 0
         then (py_slice (g_array g) start stop, g\<lparr>g_start := start + g_batch_size g\<rparr>)
         else (py_slice_from (g_array g) start @ py_slice_to (g_array g) diff,
               g\<lparr>g_start := diff\<rparr>))"

definition advance :: "'a generator \<Rightarrow> 'a generator" where
  "advance g = snd (select_batch g)"

text \<open>The generator as it stands before its \<open>k\<close>-th \<^verbatim>\<open>next()\<close> (counting from 0), and the
  rows that call selects.\<close>

definition gen_at :: "'a list \<Rightarrow> int \<Rightarrow> nat \<Rightarrow> 'a generator" where
  "gen_at array batch_size k = (advance ^^ k) (generator array batch_size)"

definition raw_batch :: "'a list \<Rightarrow> int \<Rightarrow> nat \<Rightarrow> 'a list" where
  "raw_batch array batch_size k = fst (select_batch (gen_at array batch_size k))"

subsection \<open>The random number generator\<close>

text \<open>
  \<^verbatim>\<open>np.random\<close> is a global generator. Its algorithm is outside the notebook, so it is
  an arbitrary stream of raw values with a read position; what the library promises of
  its draws holds for every stream: \<^verbatim>\<open>random_sample\<close> lies in \<open>[0, 1)\<close>, and
  \<^verbatim>\<open>randint(high)\<close> lies in \<open>[0, high)\<close>.
\<close>

record rng =
  rng_stream :: "nat \<Rightarrow> nat"
  rng_pos :: nat

definition next_raw :: "rng \<Rightarrow> nat \<times> rng" where
  "next_raw r = (rng_stream r (rng_pos r), r\<lparr>rng_pos := Suc (rng_pos r)\<rparr>)"

definition random_sample :: "rng \<Rightarrow> real \<times> rng" where
  "random_sample r = (let (w, r') = next_raw r in (real (w mod 2 ^ 53) / 2 ^ 53, r'))"

text \<open>The uniform variate that the \<open>k\<close>-th next draw will return, and the number of
  elements in the rows before row \<open>i\<close> (elements are drawn in row-major order).\<close>

definition uniform_at :: "rng \<Rightarrow> nat \<Rightarrow> real" where
  "uniform_at r k = fst (random_sample (r\<lparr>rng_pos := rng_pos r + k\<rparr>))"

definition row_offset :: "'a list list \<Rightarrow> nat \<Rightarrow> nat" where
  "row_offset xss i = sum_list (map length (take i xss))"

text \<open>
  \<^verbatim>\<open>np.random.binomial(n, p)\<close> with an array \<open>p\<close>: one draw per element, the number of
  successes in \<open>n\<close> trials of probability \<open>p\<close>. It raises \<^verbatim>\<open>ValueError\<close> when some
  \<open>p\<close> is below 0 or above 1.
\<close>

fun binomial_draw :: "nat \<Rightarrow> real \<Rightarrow> rng \<Rightarrow> int \<times> rng" where
  "binomial_draw 0 p r = (0, r)"
| "binomial_draw (Suc n) p r =
     (let (u, r1) = random_sample r;
          (k, r2) = binomial_draw n p r1
      in ((if u < p then 1 else 0) + k, r2))"

fun binomial_row :: "nat \<Rightarrow> real list \<Rightarrow> rng \<Rightarrow> int list \<times> rng" where
  "binomial_row n [] r = ([], r)"
| "binomial_row n (p # ps) r =
     (let (k, r1) = binomial_draw n p r;
          (ks, r2) = binomial_row n ps r1
      in (k # ks, r2))"

fun binomial_rows :: "nat \<Rightarrow> real list list \<Rightarrow> rng \<Rightarrow> int list list \<times> rng" where
  "binomial_rows n [] r = ([], r)"
| "binomial_rows n (ps # pss) r =
     (let (ks, r1) = binomial_row n ps r;
          (kss, r2) = binomial_rows n pss r1
      in (ks # kss, r2))"

definition binomial ::
  "nat \<Rightarrow> real list list \<Rightarrow> rng \<Rightarrow> py_error + (int list list \<times> rng)" where
  "binomial n pss r =
     (if list_ex (list_ex (\<lambda>p. p < 0 \<or> 1 < p)) pss then Inl ValueError
      else Inr (binomial_rows n pss r))"

subsection \<open>One \<^verbatim>\<open>next()\<close> of the generator\<close>

text \<open>\<^verbatim>\<open>batch.astype(np.float32) / 255.0\<close>, elementwise.\<close>

definition normalize :: "int list list \<Rightarrow> real list list" where
  "normalize batch = map (map (\<lambda>v. real_of_int v / 255)) batch"

definition next_gen ::
  "int list generator \<Rightarrow> rng \<Rightarrow> py_error + (int list list \<times> int list generator \<times> rng)"
  where
  "next_gen g r =
     (let (batch, g') = select_batch g
      in case binomial 1 (normalize batch) r of
           Inl e \<Rightarrow> Inl e
         | Inr (b, r') \<Rightarrow> Inr (b, g', r'))"

text \<open>\<open>k\<close> consecutive calls of \<^verbatim>\<open>next()\<close>, stopping at the first that raises.\<close>

fun run_next ::
  "nat \<Rightarrow> int list generator \<Rightarrow> rng
     \<Rightarrow> py_error + (int list list list \<times> int list generator \<times> rng)" where
  "run_next 0 g r = Inr ([], g, r)"
| "run_next (Suc k) g r =
     (case next_gen g r of
        Inl e \<Rightarrow> Inl e
      | Inr (b, g', r') \<Rightarrow>
          (case run_next k g' r' of
             Inl e \<Rightarrow> Inl e
           | Inr (bs, g'', r'') \<Rightarrow> Inr (b # bs, g'', r'')))"

text \<open>Raw pixel data: every element is an integer intensity between 0 and 255.\<close>

definition pixels_ok :: "int list list \<Rightarrow> bool" where
  "pixels_ok array = list_all (list_all (\<lambda>v. 0 \<le> v \<and> v \<le> 255)) array"

definition binary :: "int list list \<Rightarrow> bool" where
  "binary batch = list_all (list_all (\<lambda>v. v = 0 \<or> v = 1)) batch"

definition unit_interval :: "real list list \<Rightarrow> bool" where
  "unit_interval batch = list_all (list_all (\<lambda>p. 0 \<le> p \<and> p \<le> 1)) batch"

subsection \<open>Output directory\<close>

text \<open>
  \<^verbatim>\<open>
  out_dir = "/tmp/out"
  if not os.path.exists(out_dir):
    os.makedirs(out_dir)
  M = 128  # batch size during training
  d = 100  # latent dimension
  \<close>
  The file system is the set of paths that exist, with a log of the \<^verbatim>\<open>os.makedirs\<close>
  calls made. \<^verbatim>\<open>os.makedirs\<close> creates the directory and its missing ancestors, and raises
  \<^verbatim>\<open>OSError\<close> when the path exists already.
\<close>

record os_state =
  os_paths :: "string set"
  os_calls :: "string list"

definition data_dir :: string where
  "data_dir = ''/tmp/data''"

definition out_dir :: string where
  "out_dir = ''/tmp/out''"

definition M :: nat where
  "M = 128"

definition d :: nat where
  "d = 100"

definition path_exists :: "os_state \<Rightarrow> string \<Rightarrow> bool" where
  "path_exists w p = (p \<in> os_paths w)"

definition ancestors :: "string \<Rightarrow> string list" where
  "ancestors p = map (\<lambda>i. take i p) (filter (\<lambda>i. p ! i = CHR ''/'') [1..<length p])"

definition makedirs :: "string \<Rightarrow> os_state \<Rightarrow> py_error + os_state" where
  "makedirs p w =
     (if path_exists w p then Inl OSError
      else Inr (w\<lparr>os_paths := os_paths w \<union> set (ancestors p) \<union> {p},
                 os_calls := os_calls w @ [p]\<rparr>))"

definition setup_out_dir :: "os_state \<Rightarrow> py_error + os_state" where
  "setup_out_dir w = (if \<not> path_exists w out_dir then makedirs out_dir w else Inr w)"

subsection \<open>The two networks\<close>

text \<open>
  \<^verbatim>\<open>tf.layers.dense(inputs, units, activation)\<close> computes
  \<^verbatim>\<open>activation(inputs @ kernel + bias)\<close> row by row. The layer creates its kernel with as
  many rows as the input has columns, so the kernel and the bias are functions of their
  indices; \<^verbatim>\<open>activation=None\<close> is the identity.
  \<^verbatim>\<open>
  def generative_network(eps):
    net = tf.layers.dense(eps, 128, activation=tf.nn.relu)
    net = tf.layers.dense(net, 784, activation=tf.sigmoid)
    return net

  def discriminative_network(x):
    """Outputs probability in logits."""
    net = tf.layers.dense(x, 128, activation=tf.nn.relu)
    net = tf.layers.dense(net, 1, activation=None)
    return net
  \<close>
\<close>

record dense_params =
  kernel :: "nat \<Rightarrow> nat \<Rightarrow> real"
  bias :: "nat \<Rightarrow> real"

definition relu :: "real \<Rightarrow> real" where
  "relu v = max 0 v"

definition sigmoid :: "real \<Rightarrow> real" where
  "sigmoid v = 1 / (1 + exp (- v))"

definition dense ::
  "dense_params \<Rightarrow> real list list \<Rightarrow> nat \<Rightarrow> (real \<Rightarrow> real) option \<Rightarrow> real list list"
  where
  "dense p inputs units activation =
     map (\<lambda>row. map (\<lambda>j.
            (case activation of None \<Rightarrow> (\<lambda>v. v) | Some f \<Rightarrow> f)
              (sum_list (map (\<lambda>i. row ! i * kernel p i j) [0..<length row]) + bias p j))
          [0..<units])
       inputs"

record network_params =
  layer1 :: dense_params
  layer2 :: dense_params

definition generative_network :: "network_params \<Rightarrow> real list list \<Rightarrow> real list list" where
  "generative_network \<theta> eps =
     (let net = dense (layer1 \<theta>) eps 128 (Some relu);
          net = dense (layer2 \<theta>) net 784 (Some sigmoid)
      in net)"

definition discriminative_network :: "network_params \<Rightarrow> real list list \<Rightarrow> real list list"
  where
  "discriminative_network \<phi> x =
     (let net = dense (layer1 \<phi>) x 128 (Some relu);
          net = dense (layer2 \<phi>) net 1 None
      in net)"

text \<open>A tensor of shape \<open>[m, n]\<close>: \<open>m\<close> rows of \<open>n\<close> elements each.\<close>

definition has_shape :: "'a list list \<Rightarrow> nat \<Rightarrow> nat \<Rightarrow> bool" where
  "has_shape xs m n = (length xs = m \<and> list_all (\<lambda>row. length row = n) xs)"

subsection \<open>Plotting\<close>

text \<open>
  \<^verbatim>\<open>
  def plot(samples):
    fig = plt.figure(figsize=(4, 4))
    gs = gridspec.GridSpec(4, 4)
    gs.update(wspace=0.05, hspace=0.05)

    for i, sample in enumerate(samples):
      ax = plt.subplot(gs[i])
      ...
      plt.imshow(sample.reshape(28, 28), cmap='Greys_r')

    return fig
  \<close>
  Indexing a grid of \<open>nrows * ncols\<close> cells at \<open>i\<close> raises \<^verbatim>\<open>IndexError\<close> beyond the last
  cell; \<^verbatim>\<open>reshape\<close> raises \<^verbatim>\<open>ValueError\<close> unless the sizes agree. A figure is the list of
  its axes, each with its cell and its image.
\<close>

record axes =
  ax_row :: nat
  ax_col :: nat
  ax_image :: "real list list"

definition gridspec_index :: "nat \<Rightarrow> nat \<Rightarrow> nat \<Rightarrow> py_error + (nat \<times> nat)" where
  "gridspec_index nrows ncols i =
     (if i < nrows * ncols then Inr (i div ncols, i mod ncols) else Inl IndexError)"

definition reshape :: "'a list \<Rightarrow> nat \<Rightarrow> nat \<Rightarrow> py_error + 'a list list" where
  "reshape xs r c =
     (if length xs = r * c then Inr (map (\<lambda>j. take c (drop (j * c) xs)) [0..<r])
      else Inl ValueError)"

fun plot_from :: "nat \<Rightarrow> real list list \<Rightarrow> axes list \<Rightarrow> py_error + axes list" where
  "plot_from i [] fig = Inr fig"
| "plot_from i (sample # samples) fig =
     (case gridspec_index 4 4 i of
        Inl e \<Rightarrow> Inl e
      | Inr (r, c) \<Rightarrow>
          (case reshape sample 28 28 of
             Inl e \<Rightarrow> Inl e
           | Inr img \<Rightarrow>
               plot_from (Suc i) samples
                 (fig @ [\<lparr>ax_row = r, ax_col = c, ax_image = img\<rparr>])))"

definition plot :: "real list list \<Rightarrow> py_error + axes list" where
  "plot samples = plot_from 0 samples []"

subsection \<open>Library calls of the training cell\<close>

text \<open>
  \<^verbatim>\<open>np.random.randint(high, size=n)\<close>: \<open>n\<close> integers in \<open>[0, high)\<close>; \<^verbatim>\<open>ValueError\<close> when
  \<open>high \<le> 0\<close>.
\<close>

definition randint :: "int \<Rightarrow> nat \<Rightarrow> rng \<Rightarrow> py_error + (int list \<times> rng)" where
  "randint high n r =
     (if high \<le> 0 then Inl ValueError
      else Inr (map (\<lambda>k. int (rng_stream r (rng_pos r + k)) mod high) [0..<n],
                r\<lparr>rng_pos := rng_pos r + n\<rparr>))"

text \<open>
  \<^verbatim>\<open>samples[idx, ]\<close>: the rows at the given indices, a negative index counting from the
  end; \<^verbatim>\<open>IndexError\<close> when an index is out of bounds.
\<close>

definition take_rows :: "'a list \<Rightarrow> int list \<Rightarrow> py_error + 'a list" where
  "take_rows xs idx =
     (let n = int (length xs)
      in if list_ex (\<lambda>k. k < - n \<or> n \<le> k) idx then Inl IndexError
         else Inr (map (\<lambda>k. xs ! nat (if k < 0 then k + n else k)) idx))"

text \<open>\<^verbatim>\<open>str(i)\<close> for a non-negative integer, \<^verbatim>\<open>s.zfill(width)\<close>, \<^verbatim>\<open>os.path.join(a, b)\<close>
  and \<^verbatim>\<open>template.format(arg)\<close> for one \<^verbatim>\<open>{}\<close> field.\<close>

fun str :: "nat \<Rightarrow> string" where
  "str n = (if n < 10 then [''0123456789'' ! n]
            else str (n div 10) @ [''0123456789'' ! (n mod 10)])"

definition zfill :: "string \<Rightarrow> nat \<Rightarrow> string" where
  "zfill s width =
     (case s of
        [] \<Rightarrow> replicate width (CHR ''0'')
      | c # rest \<Rightarrow>
          if c = CHR ''+'' \<or> c = CHR ''-''
          then c # replicate (width - length s) (CHR ''0'') @ rest
          else replicate (width - length s) (CHR ''0'') @ s)"

definition path_join :: "string \<Rightarrow> string \<Rightarrow> string" where
  "path_join a b =
     (if b \<noteq> [] \<and> hd b = CHR ''/'' then b
      else if a = [] \<or> last a = CHR ''/'' then a @ b
      else a @ ''/'' @ b)"

fun format :: "string \<Rightarrow> string \<Rightarrow> string" where
  "format (c1 # c2 # cs) arg =
     (if c1 = CHR ''{'' \<and> c2 = CHR ''}'' then arg @ cs else c1 # format (c2 # cs) arg)"
| "format cs arg = cs"

text \<open>\<^verbatim>\<open>os.path.join(out_dir, '{}.png').format(str(i).zfill(3))\<close>\<close>

definition fig_path :: "nat \<Rightarrow> string" where
  "fig_path i = format (path_join out_dir ''{}.png'') (zfill (str i) 3)"

text \<open>
  The session holds the generator network's variables and TensorFlow's own random
  state. \<^verbatim>\<open>sess.run(x)\<close> draws \<^verbatim>\<open>eps\<close> of shape \<open>[M, d]\<close> uniformly from \<open>[-1, 1)\<close> and
  evaluates \<^verbatim>\<open>x = generative_network(eps)\<close>.
\<close>

record session =
  s_theta :: network_params
  s_rng :: rng

definition sample_eps :: "rng \<Rightarrow> real list list \<times> rng" where
  "sample_eps r =
     (map (\<lambda>i. map (\<lambda>j. 2 * fst (random_sample (r\<lparr>rng_pos := rng_pos r + i * d + j\<rparr>)) - 1)
                 [0..<d])
          [0..<M],
      r\<lparr>rng_pos := rng_pos r + M * d\<rparr>)"

definition run_x :: "session \<Rightarrow> real list list \<times> session" where
  "run_x s =
     (let (eps, r') = sample_eps (s_rng s)
      in (generative_network (s_theta s) eps, s\<lparr>s_rng := r'\<rparr>))"

text \<open>\<^verbatim>\<open>inference.initialize(..., n_iter=15000, n_print=1000)\<close> stores the two counts.\<close>

record inference =
  n_iter :: nat
  n_print :: nat

definition initialize :: "nat \<Rightarrow> nat \<Rightarrow> inference" where
  "initialize iters prints = \<lparr>n_iter = iters, n_print = prints\<rparr>"

text \<open>
  \<^verbatim>\<open>x_ph = tf.placeholder(tf.float32, [M, 784])\<close> fixes the shape of what can be fed:
  \<^verbatim>\<open>inference.update(feed_dict={x_ph: x_batch})\<close> raises \<^verbatim>\<open>ValueError\<close> when \<open>x_batch\<close> is
  not of shape \<open>[M, 784]\<close>. What the update does to the session otherwise belongs to
  the library: it is a parameter \<open>upd\<close>, an arbitrary function of the session and the
  batch.
\<close>

definition inference_update ::
  "(session \<Rightarrow> int list list \<Rightarrow> session) \<Rightarrow> session \<Rightarrow> int list list
     \<Rightarrow> py_error + session" where
  "inference_update upd s x_batch =
     (if has_shape x_batch M 784 then Inr (upd s x_batch) else Inl ValueError)"

subsection \<open>The training loop\<close>

text \<open>
  \<^verbatim>\<open>
  idx = np.random.randint(M, size=16)
  i = 0
  for t in range(inference.n_iter):
    if t % inference.n_print == 0:
      samples = sess.run(x)
      samples = samples[idx, ]

      fig = plot(samples)
      plt.savefig(os.path.join(out_dir, '{}.png').format(
          str(i).zfill(3)), bbox_inches='tight')
      plt.close(fig)
      i += 1

    x_batch = next(x_train_generator)
    info_dict = inference.update(feed_dict={x_ph: x_batch})
    inference.print_progress(info_dict)
  \<close>
  The state of the cell is the counter \<open>i\<close>, the batch generator, numpy's random state,
  the session, and the files written by \<^verbatim>\<open>plt.savefig\<close> (path and figure); every call
  with an effect outside the cell is also logged as an event, tagged with the iteration
  \<open>t\<close> that made it.
\<close>

datatype event =
    Define string
  | SetSeed nat
  | SetupOutDir
  | LoadData string
  | NewGenerator
  | Placeholder
  | BuildModel
  | NewOptimizers
  | NewInference
  | Initialize nat nat
  | InitVariables
  | DrawIdx "int list"
  | SessRun nat
  | Plot nat "int list"
  | SaveFig nat string
  | CloseFig nat
  | NextBatch nat
  | Update nat
  | PrintProgress nat

record train_state =
  ts_i :: nat
  ts_gen :: "int list generator"
  ts_rng :: rng
  ts_sess :: session
  ts_files :: "(string \<times> axes list) list"
  ts_trace :: "event list"

definition render :: "int list \<Rightarrow> nat \<Rightarrow> train_state \<Rightarrow> py_error + train_state" where
  "render idx t st =
     (let (samples, s') = run_x (ts_sess st)
      in case take_rows samples idx of
           Inl e \<Rightarrow> Inl e
         | Inr rows \<Rightarrow>
             (case plot rows of
                Inl e \<Rightarrow> Inl e
              | Inr fig \<Rightarrow>
                  Inr (st\<lparr>ts_sess := s',
                          ts_files := ts_files st @ [(fig_path (ts_i st), fig)],
                          ts_i := ts_i st + 1,
                          ts_trace := ts_trace st
                            @ [SessRun t, Plot t idx, SaveFig t (fig_path (ts_i st)),
                               CloseFig t]\<rparr>)))"

definition iteration ::
  "(session \<Rightarrow> int list list \<Rightarrow> session) \<Rightarrow> inference \<Rightarrow> int list \<Rightarrow> nat \<Rightarrow> train_state
     \<Rightarrow> py_error + train_state" where
  "iteration upd inference idx t st =
     (if n_print inference = 0 then Inl ZeroDivisionError
      else case (if t mod n_print inference = 0 then render idx t st else Inr st) of
             Inl e \<Rightarrow> Inl e
           | Inr st1 \<Rightarrow>
               (case next_gen (ts_gen st1) (ts_rng st1) of
                  Inl e \<Rightarrow> Inl e
                | Inr (x_batch, g', r') \<Rightarrow>
                    (case inference_update upd (ts_sess st1) x_batch of
                       Inl e \<Rightarrow> Inl e
                     | Inr s' \<Rightarrow>
                         Inr (st1\<lparr>ts_gen := g',
                                  ts_rng := r',
                                  ts_sess := s',
                                  ts_trace := ts_trace st1
                                    @ [NextBatch t, Update t, PrintProgress t]\<rparr>))))"

fun train_iters ::
  "(session \<Rightarrow> int list list \<Rightarrow> session) \<Rightarrow> inference \<Rightarrow> int list \<Rightarrow> nat list \<Rightarrow> train_state
     \<Rightarrow> py_error + train_state" where
  "train_iters upd inference idx [] st = Inr st"
| "train_iters upd inference idx (t # ts) st =
     (case iteration upd inference idx t st of
        Inl e \<Rightarrow> Inl e
      | Inr st' \<Rightarrow> train_iters upd inference idx ts st')"

text \<open>The state in which the \<^verbatim>\<open>for\<close> loop starts: \<open>idx\<close> drawn, \<open>i = 0\<close>.\<close>

definition start_loop :: "train_state \<Rightarrow> int list \<Rightarrow> rng \<Rightarrow> train_state" where
  "start_loop st idx r' =
     st\<lparr>ts_rng := r', ts_i := 0, ts_trace := ts_trace st @ [DrawIdx idx]\<rparr>"

definition train_loop ::
  "(session \<Rightarrow> int list list \<Rightarrow> session) \<Rightarrow> inference \<Rightarrow> train_state
     \<Rightarrow> py_error + train_state" where
  "train_loop upd inference st =
     (case randint (int M) 16 (ts_rng st) of
        Inl e \<Rightarrow> Inl e
      | Inr (idx, r') \<Rightarrow>
          train_iters upd inference idx [0..<n_iter inference] (start_loop st idx r'))"

subsection \<open>The notebook, cell by cell\<close>

text \<open>
  The notebook is its code cells run in the order they stand. Each cell is a step on
  the notebook's state: the global names bound so far, the file system, numpy's random
  state, the batch generator, the inference object's counts, the session, the counter
  \<open>i\<close>, the files written and the event log. A cell that reads a global name raises
  \<^verbatim>\<open>NameError\<close> when no earlier cell has bound it, and reading \<^verbatim>\<open>inference.n_iter\<close>
  raises \<^verbatim>\<open>AttributeError\<close> before \<^verbatim>\<open>inference.initialize\<close>. What the notebook takes from
  its libraries is a parameter: numpy's state after \<^verbatim>\<open>ed.set_seed(n)\<close>, the array that
  \<^verbatim>\<open>mnist(data_dir)\<close> returns as \<^verbatim>\<open>x_train\<close>, the session after
  \<^verbatim>\<open>tf.global_variables_initializer().run()\<close>, and the update step.
\<close>

record library =
  lib_seed :: "nat \<Rightarrow> rng"
  lib_mnist :: "string \<Rightarrow> int list list"
  lib_session :: session
  lib_update :: "session \<Rightarrow> int list list \<Rightarrow> session"

record notebook_state =
  nb_names :: "string set"
  nb_fs :: os_state
  nb_rng :: rng
  nb_generator :: "int list generator option"
  nb_inference :: "inference option"
  nb_sess :: "session option"
  nb_i :: nat
  nb_files :: "(string \<times> axes list) list"
  nb_trace :: "event list"

definition require :: "string list \<Rightarrow> notebook_state \<Rightarrow> py_error + notebook_state" where
  "require ns st = (if list_all (\<lambda>n. n \<in> nb_names st) ns then Inr st else Inl NameError)"

definition define_names :: "string list \<Rightarrow> notebook_state \<Rightarrow> notebook_state" where
  "define_names ns st = st\<lparr>nb_names := nb_names st \<union> set ns\<rparr>"

definition emit :: "event list \<Rightarrow> notebook_state \<Rightarrow> notebook_state" where
  "emit es st = st\<lparr>nb_trace := nb_trace st @ es\<rparr>"

text \<open>\<^verbatim>\<open>def plot(samples): ...\<close>\<close>

definition cell_plot :: "notebook_state \<Rightarrow> py_error + notebook_state" where
  "cell_plot st = Inr (emit [Define ''plot''] (define_names [''plot''] st))"

text \<open>\<^verbatim>\<open>ed.set_seed(42)\<close>, the two directories, the guarded \<^verbatim>\<open>os.makedirs\<close>, \<open>M\<close> and \<open>d\<close>.\<close>

definition cell_setup :: "library \<Rightarrow> notebook_state \<Rightarrow> py_error + notebook_state" where
  "cell_setup lib st =
     (case setup_out_dir (nb_fs st) of
        Inl e \<Rightarrow> Inl e
      | Inr w' \<Rightarrow>
          Inr (emit [SetSeed 42, SetupOutDir]
                (define_names [''data_dir'', ''out_dir'', ''M'', ''d'']
                  (st\<lparr>nb_rng := lib_seed lib 42, nb_fs := w'\<rparr>))))"

text \<open>\<^verbatim>\<open>def generator(array, batch_size): ...\<close>\<close>

definition cell_generator :: "notebook_state \<Rightarrow> py_error + notebook_state" where
  "cell_generator st = Inr (emit [Define ''generator''] (define_names [''generator''] st))"

text \<open>
  \<^verbatim>\<open>
  (x_train, _), (x_test, _) = mnist(data_dir)
  x_train_generator = generator(x_train, M)
  x_ph = tf.placeholder(tf.float32, [M, 784])
  \<close>
\<close>

definition cell_data :: "library \<Rightarrow> notebook_state \<Rightarrow> py_error + notebook_state" where
  "cell_data lib st =
     (case require [''data_dir'', ''generator'', ''M''] st of
        Inl e \<Rightarrow> Inl e
      | Inr _ \<Rightarrow>
          Inr (emit [LoadData data_dir, NewGenerator, Placeholder]
                (define_names [''x_train'', ''x_test'', ''x_train_generator'', ''x_ph'']
                  (st\<lparr>nb_generator :=
                        Some (generator (lib_mnist lib data_dir) (int M))\<rparr>))))"

text \<open>\<^verbatim>\<open>def generative_network(eps): ...\<close> and, under the variable scope,
  \<^verbatim>\<open>eps = Uniform(...)\<close> and \<^verbatim>\<open>x = generative_network(eps)\<close>.\<close>

definition cell_generative :: "notebook_state \<Rightarrow> py_error + notebook_state" where
  "cell_generative st =
     (case require [''M'', ''d''] st of
        Inl e \<Rightarrow> Inl e
      | Inr _ \<Rightarrow>
          Inr (emit [Define ''generative_network'', BuildModel]
                (define_names [''generative_network'', ''eps'', ''x''] st)))"

text \<open>\<^verbatim>\<open>def discriminative_network(x): ...\<close>\<close>

definition cell_discriminative :: "notebook_state \<Rightarrow> py_error + notebook_state" where
  "cell_discriminative st =
     Inr (emit [Define ''discriminative_network'']
           (define_names [''discriminative_network''] st))"

text \<open>\<^verbatim>\<open>inference = ed.GANInference(data={x: x_ph}, discriminator=discriminative_network)\<close>\<close>

definition cell_inference :: "notebook_state \<Rightarrow> py_error + notebook_state" where
  "cell_inference st =
     (case require [''x'', ''x_ph'', ''discriminative_network''] st of
        Inl e \<Rightarrow> Inl e
      | Inr _ \<Rightarrow>
          Inr (emit [NewInference]
                (define_names [''inference''] (st\<lparr>nb_inference := None\<rparr>))))"

text \<open>The two optimizers, the inference object once more, and
  \<^verbatim>\<open>inference.initialize(optimizer=..., optimizer_d=..., n_iter=15000, n_print=1000)\<close>.\<close>

definition cell_initialize :: "notebook_state \<Rightarrow> py_error + notebook_state" where
  "cell_initialize st =
     (case require [''x'', ''x_ph'', ''discriminative_network''] st of
        Inl e \<Rightarrow> Inl e
      | Inr _ \<Rightarrow>
          Inr (emit [NewOptimizers, NewInference, Initialize 15000 1000]
                (define_names [''optimizer'', ''optimizer_d'', ''inference'']
                  (st\<lparr>nb_inference := Some (initialize 15000 1000)\<rparr>))))"

text \<open>The training cell: the session, the variables' initialisation, and the loop.\<close>

definition cell_train :: "library \<Rightarrow> notebook_state \<Rightarrow> py_error + notebook_state" where
  "cell_train lib st =
     (case require [''inference'', ''M'', ''x'', ''plot'', ''out_dir'', ''x_train_generator'',
                    ''x_ph''] st of
        Inl e \<Rightarrow> Inl e
      | Inr _ \<Rightarrow>
          (case nb_inference st of
             None \<Rightarrow> Inl AttributeError
           | Some inference \<Rightarrow>
               (case nb_generator st of
                  None \<Rightarrow> Inl NameError
                | Some g \<Rightarrow>
                    (case train_loop (lib_update lib) inference
                            \<lparr>ts_i = nb_i st, ts_gen = g, ts_rng = nb_rng st,
                             ts_sess = lib_session lib, ts_files = nb_files st,
                             ts_trace = nb_trace st @ [InitVariables]\<rparr> of
                       Inl e \<Rightarrow> Inl e
                     | Inr ts \<Rightarrow>
                         Inr (define_names [''sess'', ''idx'', ''i'', ''t'', ''samples'',
                                            ''fig'', ''x_batch'', ''info_dict'']
                               (st\<lparr>nb_generator := Some (ts_gen ts),
                                   nb_rng := ts_rng ts,
                                   nb_sess := Some (ts_sess ts),
                                   nb_i := ts_i ts,
                                   nb_files := ts_files ts,
                                   nb_trace := ts_trace ts\<rparr>))))))"

fun run_cells ::
  "(notebook_state \<Rightarrow> py_error + notebook_state) list \<Rightarrow> notebook_state
     \<Rightarrow> py_error + notebook_state" where
  "run_cells [] st = Inr st"
| "run_cells (cell # cells) st =
     (case cell st of Inl e \<Rightarrow> Inl e | Inr st' \<Rightarrow> run_cells cells st')"

text \<open>A fresh kernel: no name bound, nothing written, on the file system \<open>w\<close> and with
  numpy's random state \<open>r\<close> as it is at import.\<close>

definition fresh :: "os_state \<Rightarrow> rng \<Rightarrow> notebook_state" where
  "fresh w r =
     \<lparr>nb_names = {}, nb_fs = w, nb_rng = r, nb_generator = None, nb_inference = None,
      nb_sess = None, nb_i = 0, nb_files = [], nb_trace = []\<rparr>"

definition cells :: "library \<Rightarrow> (notebook_state \<Rightarrow> py_error + notebook_state) list" where
  "cells lib =
     [cell_plot, cell_setup lib, cell_generator, cell_data lib, cell_generative,
      cell_discriminative, cell_inference, cell_initialize, cell_train lib]"

definition notebook :: "library \<Rightarrow> os_state \<Rightarrow> rng \<Rightarrow> py_error + notebook_state" where
  "notebook lib w r = run_cells (cells lib) (fresh w r)"

text \<open>Sixteen row indices, each in \<open>[0, M)\<close>: what \<^verbatim>\<open>np.random.randint(M, size=16)\<close>
  returns.\<close>

definition idx_ok :: "int list \<Rightarrow> bool" where
  "idx_ok idx = (length idx = 16 \<and> list_all (\<lambda>k. 0 \<le> k \<and> k < int M) idx)"

text \<open>Training data as the notebook uses it: at least \<open>M\<close> images of 784 raw intensities
  each (MNIST has 55000).\<close>

definition training_data :: "int list list \<Rightarrow> bool" where
  "training_data x_train =
     (M \<le> length x_train \<and> list_all (\<lambda>row. length row = 784) x_train \<and> pixels_ok x_train)"

subsection \<open>Reading a trace\<close>

fun update_iters :: "event list \<Rightarrow> nat list" where
  "update_iters [] = []"
| "update_iters (Update t # es) = t # update_iters es"
| "update_iters (e # es) = update_iters es"

fun batch_iters :: "event list \<Rightarrow> nat list" where
  "batch_iters [] = []"
| "batch_iters (NextBatch t # es) = t # batch_iters es"
| "batch_iters (e # es) = batch_iters es"

fun saved_figs :: "event list \<Rightarrow> (nat \<times> string) list" where
  "saved_figs [] = []"
| "saved_figs (SaveFig t p # es) = (t, p) # saved_figs es"
| "saved_figs (e # es) = saved_figs es"

fun plotted :: "event list \<Rightarrow> (nat \<times> int list) list" where
  "plotted [] = []"
| "plotted (Plot t idx # es) = (t, idx) # plotted es"
| "plotted (e # es) = plotted es"

fun drawn_idx :: "event list \<Rightarrow> int list list" where
  "drawn_idx [] = []"
| "drawn_idx (DrawIdx idx # es) = idx # drawn_idx es"
| "drawn_idx (e # es) = drawn_idx es"

text \<open>The events that iteration \<open>t\<close> appends to the trace when nothing raises.\<close>

definition iteration_events :: "inference \<Rightarrow> int list \<Rightarrow> nat \<Rightarrow> event list" where
  "iteration_events inference idx t =
     (if t mod n_print inference = 0
      then [SessRun t, Plot t idx, SaveFig t (fig_path (t div n_print inference)), CloseFig t]
      else [])
     @ [NextBatch t, Update t, PrintProgress t]"


subsection \<open>Sample inputs\<close>

definition zero_params :: network_params where
  "zero_params =
     \<lparr>layer1 = \<lparr>kernel = (\<lambda>i j. 0), bias = (\<lambda>j. 0)\<rparr>,
      layer2 = \<lparr>kernel = (\<lambda>i j. 0), bias = (\<lambda>j. 0)\<rparr>\<rparr>"

definition counting_rng :: rng where
  "counting_rng = \<lparr>rng_stream = (\<lambda>n. n), rng_pos = 0\<rparr>"

definition sample_session :: session where
  "sample_session = \<lparr>s_theta = zero_params, s_rng = counting_rng\<rparr>"

definition keep_session :: "session \<Rightarrow> int list list \<Rightarrow> session" where
  "keep_session s batch = s"

definition empty_fs :: os_state where
  "empty_fs = \<lparr>os_paths = {}, os_calls = []\<rparr>"

text \<open>Two hundred images, a hundred black and a hundred white.\<close>

definition sample_images :: "int list list" where
  "sample_images = replicate 100 (replicate 784 0) @ replicate 100 (replicate 784 255)"

definition sample_library :: library where
  "sample_library =
     \<lparr>lib_seed = (\<lambda>n. counting_rng), lib_mnist = (\<lambda>p. sample_images),
      lib_session = sample_session, lib_update = keep_session\<rparr>"

section \<open>Properties of the batch generator\<close>

lemma slice_bound_nat: "0 \<le> i \<Longrightarrow> i \<le> int n \<Longrightarrow> slice_bound n i = nat i"
  by (simp add: slice_bound_def)

lemma advance_array [simp]: "g_array (advance g) = g_array g"
  by (simp add: advance_def select_batch_def Let_def)

lemma advance_batch_size [simp]: "g_batch_size (advance g) = g_batch_size g"
  by (simp add: advance_def select_batch_def Let_def)

lemma select_no_wrap:
  assumes "g_start g = int s" "g_batch_size g = int m" "s + m \<le> length (g_array g)"
  shows "fst (select_batch g) = map (\<lambda>j. g_array g ! (s + j)) [0..<m]"
    and "g_start (advance g) = int (s + m)"
proof -
  let ?xs = "g_array g"
  have "fst (select_batch g) = take m (drop s ?xs)"
    using assms by (simp add: select_batch_def Let_def py_slice_def slice_bound_nat nat_int_add)
  also have "\<dots> = map (\<lambda>j. ?xs ! (s + j)) [0..<m]"
    using assms by (intro nth_equalityI) simp_all
  finally show "fst (select_batch g) = map (\<lambda>j. ?xs ! (s + j)) [0..<m]" .
  show "g_start (advance g) = int (s + m)"
    using assms by (simp add: advance_def select_batch_def Let_def)
qed

lemma select_wrap:
  assumes "g_start g = int s" "g_batch_size g = int m" "s \<le> length (g_array g)"
    "m \<le> length (g_array g)" "length (g_array g) < s + m"
  shows "fst (select_batch g) =
      map (\<lambda>j. g_array g ! (s + j)) [0..<length (g_array g) - s]
      @ map (\<lambda>j. g_array g ! j) [0..<s + m - length (g_array g)]"
    and "g_start (advance g) = int (s + m - length (g_array g))"
proof -
  let ?xs = "g_array g"
  let ?N = "length ?xs"
  have d: "int s + int m - int ?N = int (s + m - ?N)"
    using assms by simp
  have "fst (select_batch g) = drop s ?xs @ take (s + m - ?N) ?xs"
    using assms unfolding select_batch_def Let_def py_slice_from_def py_slice_to_def
    by (simp add: d slice_bound_nat del: of_nat_diff of_nat_add)
  moreover have "drop s ?xs = map (\<lambda>j. ?xs ! (s + j)) [0..<?N - s]"
    using assms by (intro nth_equalityI) simp_all
  moreover have "take (s + m - ?N) ?xs = map (\<lambda>j. ?xs ! j) [0..<s + m - ?N]"
    using assms by (intro nth_equalityI) simp_all
  ultimately show "fst (select_batch g) =
      map (\<lambda>j. ?xs ! (s + j)) [0..<?N - s] @ map (\<lambda>j. ?xs ! j) [0..<s + m - ?N]"
    by simp
  show "g_start (advance g) = int (s + m - ?N)"
    using assms unfolding advance_def select_batch_def Let_def
    by (simp add: d del: of_nat_diff of_nat_add)
qed


lemma gen_at_Suc: "gen_at array m (Suc k) = advance (gen_at array m k)"
  by (simp add: gen_at_def)

lemma gen_at_array [simp]: "g_array (gen_at array m k) = array"
  by (induction k) (simp_all add: gen_at_Suc, simp add: gen_at_def generator_def)

lemma gen_at_batch_size [simp]: "g_batch_size (gen_at array m k) = m"
  by (induction k) (simp_all add: gen_at_Suc, simp add: gen_at_def generator_def)

lemma gen_at_start:
  assumes "1 \<le> m" "m \<le> length array"
  shows "\<exists>s. g_start (gen_at array (int m) k) = int s \<and> s \<le> length array
            \<and> s mod length array = (k * m) mod length array"
proof (induction k)
  case 0
  show ?case by (simp add: gen_at_def generator_def)
next
  case (Suc k)
  let ?N = "length array"
  let ?g = "gen_at array (int m) k"
  from Suc obtain s where s: "g_start ?g = int s" "s \<le> ?N" "s mod ?N = (k * m) mod ?N"
    by blast
  have cong: "(s + m) mod ?N = (Suc k * m) mod ?N"
    using s(3) by (metis add.commute mod_add_right_eq mult_Suc)
  show ?case
  proof (cases "s + m \<le> ?N")
    case True
    have "g_start (advance ?g) = int (s + m)"
      using select_no_wrap(2) [of ?g s m] s(1) True by simp
    with True cong show ?thesis
      unfolding gen_at_Suc by blast
  next
    case False
    have "g_start (advance ?g) = int (s + m - ?N)"
      using select_wrap(2) [of ?g s m] s(1,2) assms False by simp
    moreover have "s + m - ?N \<le> ?N"
      using s(2) assms by simp
    moreover have "(s + m - ?N) mod ?N = (Suc k * m) mod ?N"
      using cong False by (simp add: le_mod_geq)
    ultimately show ?thesis
      unfolding gen_at_Suc by blast
  qed
qed

lemma raw_batch_indices:
  assumes "1 \<le> m" "m \<le> length array"
  shows "raw_batch array (int m) k =
           map (\<lambda>j. array ! ((k * m + j) mod length array)) [0..<m]"
proof -
  let ?N = "length array"
  let ?g = "gen_at array (int m) k"
  obtain s where s: "g_start ?g = int s" "s \<le> ?N" "s mod ?N = (k * m) mod ?N"
    using gen_at_start [OF assms] by blast
  have idx: "(k * m + j) mod ?N = (s + j) mod ?N" for j
    using s(3) by (metis mod_add_left_eq)
  show ?thesis
  proof (cases "s + m \<le> ?N")
    case True
    have "raw_batch array (int m) k = map (\<lambda>j. array ! (s + j)) [0..<m]"
      unfolding raw_batch_def using select_no_wrap(1) [of ?g s m] s(1) True by simp
    also have "\<dots> = map (\<lambda>j. array ! ((k * m + j) mod ?N)) [0..<m]"
      using True by (simp add: idx)
    finally show ?thesis .
  next
    case False
    have "raw_batch array (int m) k =
        map (\<lambda>j. array ! (s + j)) [0..<?N - s] @ map (\<lambda>j. array ! j) [0..<s + m - ?N]"
      unfolding raw_batch_def using select_wrap(1) [of ?g s m] s(1,2) assms False by simp
    also have "\<dots> = map (\<lambda>j. array ! ((k * m + j) mod ?N)) [0..<m]"
    proof (rule nth_equalityI)
      show "length (map (\<lambda>j. array ! (s + j)) [0..<?N - s]
                @ map (\<lambda>j. array ! j) [0..<s + m - ?N])
            = length (map (\<lambda>j. array ! ((k * m + j) mod ?N)) [0..<m])"
        using s(2) False by simp
    next
      fix j
      assume "j < length (map (\<lambda>j. array ! (s + j)) [0..<?N - s]
                @ map (\<lambda>j. array ! j) [0..<s + m - ?N])"
      then have j: "j < m" using s(2) False by simp
      show "(map (\<lambda>j. array ! (s + j)) [0..<?N - s]
                @ map (\<lambda>j. array ! j) [0..<s + m - ?N]) ! j
            = map (\<lambda>j. array ! ((k * m + j) mod ?N)) [0..<m] ! j"
      proof (cases "j < ?N - s")
        case True
        then show ?thesis using j by (simp add: nth_append idx)
      next
        case False
        then have "(s + j) mod ?N = j - (?N - s)"
          using j s(2) assms by (simp add: le_mod_geq)
        then show ?thesis using False j s(2) by (simp add: nth_append idx)
      qed
    qed
    finally show ?thesis .
  qed
qed

lemma binomial_draw_one:
  "fst (binomial_draw (Suc 0) p r) = 0 \<or> fst (binomial_draw (Suc 0) p r) = 1"
  by (simp add: Let_def split: prod.splits)

lemma binomial_row_one:
  "list_all (\<lambda>v. v = 0 \<or> v = 1) (fst (binomial_row (Suc 0) ps r))
   \<and> length (fst (binomial_row (Suc 0) ps r)) = length ps"
proof (induction ps arbitrary: r)
  case Nil
  show ?case by simp
next
  case (Cons p ps)
  obtain k r1 where d: "binomial_draw (Suc 0) p r = (k, r1)"
    by (cases "binomial_draw (Suc 0) p r")
  obtain ks r2 where rest: "binomial_row (Suc 0) ps r1 = (ks, r2)"
    by (cases "binomial_row (Suc 0) ps r1")
  have "k = 0 \<or> k = 1"
    using binomial_draw_one [of p r] d by simp
  moreover have "list_all (\<lambda>v. v = 0 \<or> v = 1) ks \<and> length ks = length ps"
    using Cons.IH [of r1] rest by simp
  ultimately show ?case
    using d rest by simp
qed

lemma binomial_rows_one:
  "binary (fst (binomial_rows (Suc 0) pss r))
   \<and> map length (fst (binomial_rows (Suc 0) pss r)) = map length pss"
proof (induction pss arbitrary: r)
  case Nil
  show ?case by (simp add: binary_def)
next
  case (Cons ps pss)
  obtain ks r1 where d: "binomial_row (Suc 0) ps r = (ks, r1)"
    by (cases "binomial_row (Suc 0) ps r")
  obtain kss r2 where rest: "binomial_rows (Suc 0) pss r1 = (kss, r2)"
    by (cases "binomial_rows (Suc 0) pss r1")
  have "list_all (\<lambda>v. v = 0 \<or> v = 1) ks \<and> length ks = length ps"
    using binomial_row_one [of ps r] d by simp
  moreover have "binary kss \<and> map length kss = map length pss"
    using Cons.IH [of r1] rest by simp
  ultimately show ?case
    using d rest by (simp add: binary_def)
qed

lemma normalize_unit_interval: "pixels_ok batch \<Longrightarrow> unit_interval (normalize batch)"
  by (simp add: pixels_ok_def unit_interval_def normalize_def list_all_iff)

lemma unit_interval_no_error:
  "unit_interval pss \<Longrightarrow> \<not> list_ex (list_ex (\<lambda>p. p < 0 \<or> 1 < p)) pss"
  by (fastforce simp: unit_interval_def list_all_iff list_ex_iff)

lemma binomial_one_ok:
  assumes "unit_interval pss"
  shows "\<exists>b r'. binomial 1 pss r = Inr (b, r') \<and> binary b \<and> map length b = map length pss"
proof -
  obtain b r' where br: "binomial_rows (Suc 0) pss r = (b, r')"
    by (cases "binomial_rows (Suc 0) pss r")
  have "binary b \<and> map length b = map length pss"
    using binomial_rows_one [of pss r] br by simp
  moreover have "binomial 1 pss r = Inr (b, r')"
    using unit_interval_no_error [OF assms] br by (simp add: binomial_def)
  ultimately show ?thesis by blast
qed

lemma set_slice_bounds:
  "set (py_slice xs lo hi) \<subseteq> set xs"
  "set (py_slice_from xs lo) \<subseteq> set xs"
  "set (py_slice_to xs hi) \<subseteq> set xs"
  by (auto simp: py_slice_def py_slice_from_def py_slice_to_def Let_def
        dest: in_set_takeD in_set_dropD)

lemma set_select_batch: "set (fst (select_batch g)) \<subseteq> set (g_array g)"
  using set_slice_bounds [of "g_array g"]
  by (auto simp: select_batch_def Let_def)

lemma pixels_ok_select: "pixels_ok (g_array g) \<Longrightarrow> pixels_ok (fst (select_batch g))"
  using set_select_batch [of g] by (auto simp: pixels_ok_def list_all_iff)

lemma normalize_shape: "map length (normalize batch) = map length batch"
  by (simp add: normalize_def)

lemma next_gen_ok:
  assumes "pixels_ok (g_array g)"
  shows "\<exists>b r'. next_gen g r = Inr (b, advance g, r') \<and> binary b
           \<and> map length b = map length (fst (select_batch g))"
proof -
  obtain batch g' where sel: "select_batch g = (batch, g')"
    by (cases "select_batch g")
  have g': "g' = advance g" and batch: "batch = fst (select_batch g)"
    using sel by (simp_all add: advance_def)
  have "unit_interval (normalize batch)"
    using pixels_ok_select [OF assms] batch by (simp add: normalize_unit_interval)
  then obtain b r' where b: "binomial 1 (normalize batch) r = Inr (b, r')" "binary b"
      "map length b = map length (normalize batch)"
    using binomial_one_ok by blast
  have "next_gen g r = Inr (b, advance g, r')"
    using sel b(1) g' by (simp add: next_gen_def)
  then show ?thesis
    using b(2,3) batch by (auto simp: normalize_shape)
qed

lemma next_gen_rows:
  assumes "next_gen g r = Inr (b, g', r')"
  shows "map length b = map length (fst (select_batch g))" and "g' = advance g"
proof -
  obtain batch g1 where sel: "select_batch g = (batch, g1)"
    by (cases "select_batch g")
  from assms sel have bin: "binomial 1 (normalize batch) r = Inr (b, r')" and g1: "g' = g1"
    by (auto simp: next_gen_def split: sum.splits)
  from bin have "b = fst (binomial_rows (Suc 0) (normalize batch) r)"
    by (auto simp: binomial_def split: if_splits)
  then have "map length b = map length (normalize batch)"
    using binomial_rows_one [of "normalize batch" r] by simp
  then show "map length b = map length (fst (select_batch g))"
    using sel by (simp add: normalize_shape)
  show "g' = advance g"
    using g1 sel by (simp add: advance_def)
qed

lemma funpow_advance_array [simp]: "g_array ((advance ^^ k) g) = g_array g"
  by (induction k) simp_all

lemma run_next_ok:
  assumes "pixels_ok (g_array g)"
  shows "\<exists>bs r'. run_next k g r = Inr (bs, (advance ^^ k) g, r') \<and> length bs = k
           \<and> list_all binary bs"
  using assms
proof (induction k arbitrary: g r)
  case 0
  show ?case by simp
next
  case (Suc k)
  obtain b r1 where b: "next_gen g r = Inr (b, advance g, r1)" "binary b"
    using next_gen_ok [OF Suc.prems] by blast
  have "pixels_ok (g_array (advance g))"
    using Suc.prems by simp
  then obtain bs r2 where bs: "run_next k (advance g) r1 = Inr (bs, (advance ^^ k) (advance g), r2)"
      "length bs = k" "list_all binary bs"
    using Suc.IH by blast
  have "run_next (Suc k) g r = Inr (b # bs, (advance ^^ Suc k) g, r2)"
    using b(1) bs(1) by (simp add: funpow_swap1)
  then show ?case
    using b(2) bs(2,3) by simp
qed

lemma take_min_length: "take (min n (length xs)) xs = take n xs"
  by (cases "n \<le> length xs") (simp_all add: min_def)

lemma select_wrap_concat:
  assumes "g_start g = int s" "g_batch_size g = int m" "s \<le> length (g_array g)"
    "length (g_array g) < s + m"
  shows "fst (select_batch g) = drop s (g_array g) @ take (s + m - length (g_array g)) (g_array g)"
proof -
  have d: "int s + int m - int (length (g_array g)) = int (s + m - length (g_array g))"
    using assms by simp
  show ?thesis
    using assms unfolding select_batch_def Let_def py_slice_from_def py_slice_to_def
    by (simp add: d slice_bound_def take_min_length del: of_nat_diff of_nat_add)
qed

text \<open>
  Claim C1 (cyclic wrap-around batch selection). For an array of \<open>N\<close> rows and a batch
  size \<open>m\<close> with \<open>1 \<le> m \<le> N\<close>, the rows selected by the \<open>k\<close>-th \<^verbatim>\<open>next()\<close> (before
  normalisation and binarisation) are the rows at indices \<open>(k * m + j) mod N\<close> for
  \<open>j = 0, \<dots>, m - 1\<close>, in that order; when the pointer \<open>s\<close> of that call has
  \<open>s + m > N\<close>, the batch is the tail of the array from \<open>s\<close> followed by its first
  \<open>s + m - N\<close> rows.
\<close>

theorem generator_cyclic_batches:
  assumes "1 \<le> m" and "m \<le> length array"
  shows "raw_batch array (int m) k
           = map (\<lambda>j. array ! ((k * m + j) mod length array)) [0..<m]
         \<and> (\<forall>s. g_start (gen_at array (int m) k) = int s \<and> length array < s + m
              \<longrightarrow> raw_batch array (int m) k
                    = drop s array @ take (s + m - length array) array)"
proof (intro conjI allI impI)
  show "raw_batch array (int m) k
      = map (\<lambda>j. array ! ((k * m + j) mod length array)) [0..<m]"
    using assms by (rule raw_batch_indices)
next
  fix s
  assume a: "g_start (gen_at array (int m) k) = int s \<and> length array < s + m"
  obtain s' where "g_start (gen_at array (int m) k) = int s'" "s' \<le> length array"
    using gen_at_start [OF assms, of k] by blast
  with a have "s \<le> length array" by simp
  then show "raw_batch array (int m) k = drop s array @ take (s + m - length array) array"
    unfolding raw_batch_def
    using select_wrap_concat [of "gen_at array (int m) k" s m] a by simp
qed

text \<open>
  Three rows, batches of two: the second batch (\<open>k = 1\<close>) wraps around, row 2 then row 0.
\<close>

theorem generator_cyclic_batches_witness:
  "(1::nat) \<le> 2 \<and> 2 \<le> length [[1], [2], [3::int]]
   \<and> raw_batch [[1], [2], [3::int]] (int 2) 1 = [[3], [1]]"
  using generator_cyclic_batches [of 2 "[[1], [2], [3::int]]" 1]
  by (simp add: upt_rec)

text \<open>
  Claim C2 (pointer invariant, fixed batch shape). For \<open>1 \<le> m \<le> N\<close> the pointer
  \<open>start\<close> lies in \<open>[0, N]\<close> at the start of every \<^verbatim>\<open>next()\<close>, hence also after every
  update and before every \<^verbatim>\<open>yield\<close>; the rows selected are exactly \<open>m\<close>, also on a
  wrap-around step, and so is every batch that \<^verbatim>\<open>next()\<close> yields.
\<close>

theorem generator_pointer_invariant:
  assumes "1 \<le> m" and "m \<le> length array"
  shows "0 \<le> g_start (gen_at array (int m) k)
         \<and> g_start (gen_at array (int m) k) \<le> int (length array)
         \<and> length (raw_batch array (int m) k) = m
         \<and> (\<forall>r b g' r'. next_gen (gen_at array (int m) k) r = Inr (b, g', r')
              \<longrightarrow> length b = m)"
proof -
  obtain s where s: "g_start (gen_at array (int m) k) = int s" "s \<le> length array"
    using gen_at_start [OF assms, of k] by blast
  have len: "length (raw_batch array (int m) k) = m"
    using raw_batch_indices [OF assms, of k] by simp
  have "length b = m" if "next_gen (gen_at array (int m) k) r = Inr (b, g', r')" for r b g' r'
  proof -
    have "map length b = map length (raw_batch array (int m) k)"
      using next_gen_rows(1) [OF that] by (simp add: raw_batch_def)
    then have "length b = length (raw_batch array (int m) k)"
      by (rule map_eq_imp_length_eq)
    with len show ?thesis by simp
  qed
  with s len show ?thesis by simp
qed

text \<open>
  Three rows, batches of two, at the sixth call.
\<close>

theorem generator_pointer_invariant_witness:
  "(1::nat) \<le> 2 \<and> 2 \<le> length [[0], [255], [7::int]]
   \<and> 0 \<le> g_start (gen_at [[0], [255], [7::int]] (int 2) 5)
   \<and> g_start (gen_at [[0], [255], [7::int]] (int 2) 5) \<le> 3
   \<and> length (raw_batch [[0], [255], [7::int]] (int 2) 5) = 2"
  using generator_pointer_invariant [of 2 "[[0], [255], [7::int]]" 5]
  by simp

lemma uniform_at_range: "0 \<le> uniform_at r k \<and> uniform_at r k < 1"
proof -
  have "real (w mod 2 ^ 53) < 2 ^ 53" for w :: nat
  proof -
    have "w mod 2 ^ 53 < (2 ^ 53 :: nat)" by simp
    then have "real (w mod 2 ^ 53) < real (2 ^ 53 :: nat)"
      by (simp only: of_nat_less_iff)
    then show ?thesis by simp
  qed
  then show ?thesis
    by (simp add: uniform_at_def random_sample_def next_raw_def)
qed

lemma random_sample_at:
  "random_sample r = (uniform_at r 0, r\<lparr>rng_pos := Suc (rng_pos r)\<rparr>)"
  by (simp add: uniform_at_def random_sample_def next_raw_def)

lemma uniform_at_shift:
  "uniform_at (r\<lparr>rng_pos := rng_pos r + n\<rparr>) k = uniform_at r (n + k)"
  by (simp add: uniform_at_def add.assoc)

lemma uniform_at_Suc:
  "uniform_at (r\<lparr>rng_pos := Suc (rng_pos r)\<rparr>) k = uniform_at r (Suc k)"
  using uniform_at_shift [of r 1 k] by simp

lemma binomial_draw_one_eq:
  "binomial_draw (Suc 0) p r
     = ((if uniform_at r 0 < p then 1 else 0), r\<lparr>rng_pos := Suc (rng_pos r)\<rparr>)"
  by (simp add: random_sample_at)

lemma binomial_row_eq:
  "binomial_row (Suc 0) ps r
     = (map (\<lambda>j. if uniform_at r j < ps ! j then 1 else 0) [0..<length ps],
        r\<lparr>rng_pos := rng_pos r + length ps\<rparr>)"
proof (induction ps arbitrary: r)
  case Nil
  show ?case by simp
next
  case (Cons p ps)
  let ?r1 = "r\<lparr>rng_pos := Suc (rng_pos r)\<rparr>"
  have "binomial_row (Suc 0) (p # ps) r
      = ((if uniform_at r 0 < p then 1 else 0)
           # map (\<lambda>j. if uniform_at r (Suc j) < ps ! j then 1 else 0) [0..<length ps],
         r\<lparr>rng_pos := Suc (rng_pos r) + length ps\<rparr>)"
    using Cons.IH [of ?r1]
    by (simp add: binomial_draw_one_eq uniform_at_Suc del: binomial_draw.simps)
  also have "\<dots> = (map (\<lambda>j. if uniform_at r j < (p # ps) ! j then 1 else 0)
                       [0..<length (p # ps)],
                    r\<lparr>rng_pos := rng_pos r + length (p # ps)\<rparr>)"
    by (simp add: map_upt_Suc del: upt_Suc)
  finally show ?case .
qed

lemma row_offset_Cons: "row_offset (xs # xss) (Suc i) = length xs + row_offset xss i"
  by (simp add: row_offset_def)

lemma binomial_rows_eq:
  "binomial_rows (Suc 0) pss r
     = (map (\<lambda>i. map (\<lambda>j. if uniform_at r (row_offset pss i + j) < pss ! i ! j then 1 else 0)
                    [0..<length (pss ! i)])
          [0..<length pss],
        r\<lparr>rng_pos := rng_pos r + sum_list (map length pss)\<rparr>)"
proof (induction pss arbitrary: r)
  case Nil
  show ?case by simp
next
  case (Cons ps pss)
  let ?r1 = "r\<lparr>rng_pos := rng_pos r + length ps\<rparr>"
  have "binomial_rows (Suc 0) (ps # pss) r
      = (map (\<lambda>j. if uniform_at r j < ps ! j then 1 else 0) [0..<length ps]
           # map (\<lambda>i. map (\<lambda>j. if uniform_at r (length ps + (row_offset pss i + j))
                                     < pss ! i ! j then 1 else 0)
                          [0..<length (pss ! i)])
               [0..<length pss],
         r\<lparr>rng_pos := rng_pos r + length ps + sum_list (map length pss)\<rparr>)"
    using Cons.IH [of ?r1]
    by (simp add: binomial_row_eq uniform_at_shift del: binomial_row.simps)
  also have "\<dots> = (map (\<lambda>i. map (\<lambda>j. if uniform_at r (row_offset (ps # pss) i + j)
                                          < (ps # pss) ! i ! j then 1 else 0)
                               [0..<length ((ps # pss) ! i)])
                       [0..<length (ps # pss)],
                    r\<lparr>rng_pos := rng_pos r + sum_list (map length (ps # pss))\<rparr>)"
    by (simp add: map_upt_Suc row_offset_Cons row_offset_def add.assoc del: upt_Suc)
  finally show ?case .
qed

lemma nth_normalize:
  "i < length batch \<Longrightarrow> j < length (batch ! i) \<Longrightarrow>
     normalize batch ! i ! j = real_of_int (batch ! i ! j) / 255"
  by (simp add: normalize_def)

lemma row_offset_normalize: "row_offset (normalize batch) i = row_offset batch i"
  by (simp add: row_offset_def normalize_def take_map comp_def)

lemma binomial_normalize:
  assumes "pixels_ok batch"
  shows "binomial 1 (normalize batch) r
     = Inr (map (\<lambda>i. map (\<lambda>j. if uniform_at r (row_offset batch i + j)
                                     < real_of_int (batch ! i ! j) / 255 then 1 else 0)
                          [0..<length (batch ! i)])
              [0..<length batch],
            r\<lparr>rng_pos := rng_pos r + sum_list (map length batch)\<rparr>)"
proof -
  have ok: "\<not> list_ex (list_ex (\<lambda>p. p < 0 \<or> 1 < p)) (normalize batch)"
    using assms by (intro unit_interval_no_error normalize_unit_interval)
  have len: "length (normalize batch) = length batch"
    "\<And>i. i < length batch \<Longrightarrow> length (normalize batch ! i) = length (batch ! i)"
    "map length (normalize batch) = map length batch"
    by (simp_all add: normalize_def)
  have "map (\<lambda>i. map (\<lambda>j. if uniform_at r (row_offset (normalize batch) i + j)
                               < normalize batch ! i ! j then (1::int) else 0)
                    [0..<length (normalize batch ! i)])
          [0..<length (normalize batch)]
      = map (\<lambda>i. map (\<lambda>j. if uniform_at r (row_offset batch i + j)
                               < real_of_int (batch ! i ! j) / 255 then 1 else 0)
                    [0..<length (batch ! i)])
          [0..<length batch]"
    by (rule map_cong) (simp_all add: len nth_normalize row_offset_normalize)
  then show ?thesis
    using ok by (simp add: binomial_def binomial_rows_eq len(3) del: binomial_rows.simps)
qed

lemma next_gen_eq:
  assumes "pixels_ok (g_array g)"
  shows "next_gen g r
     = Inr (map (\<lambda>i. map (\<lambda>j. if uniform_at r (row_offset (fst (select_batch g)) i + j)
                                     < real_of_int (fst (select_batch g) ! i ! j) / 255
                                  then 1 else 0)
                          [0..<length (fst (select_batch g) ! i)])
              [0..<length (fst (select_batch g))],
            advance g,
            r\<lparr>rng_pos := rng_pos r + sum_list (map length (fst (select_batch g)))\<rparr>)"
proof -
  obtain batch g' where sel: "select_batch g = (batch, g')"
    by (cases "select_batch g")
  have "pixels_ok batch"
    using pixels_ok_select [OF assms] sel by simp
  from binomial_normalize [OF this, of r] show ?thesis
    using sel by (simp add: next_gen_def advance_def)
qed

text \<open>
  Claim C3 (normalisation and binarisation). When every element of the array is an
  integer in \<open>[0, 255]\<close>, every \<^verbatim>\<open>next()\<close> returns a batch. The scaled values lie in
  \<open>[0, 1]\<close>, so \<^verbatim>\<open>np.random.binomial\<close> accepts them as probabilities. Element \<open>(i, j)\<close>
  of the batch is the outcome of one Bernoulli trial: it is 1 exactly when that
  element's own uniform variate, the next one in row-major order, lies below the raw
  value of the selected row divided by 255, and 0 otherwise; every variate lies in
  \<open>[0, 1)\<close>, so the value divided by 255 is the probability of a 1. Hence every element
  is 0 or 1, the batch has the shape of the selected rows, the random state has
  advanced by one draw per element, and the stored array is unchanged (it keeps its
  raw values).
\<close>

theorem generator_batches_binary:
  assumes "pixels_ok array"
  shows "\<exists>b. next_gen (gen_at array m k) r
               = Inr (b, gen_at array m (Suc k),
                      r\<lparr>rng_pos := rng_pos r + sum_list (map length (raw_batch array m k))\<rparr>)
           \<and> b = map (\<lambda>i. map (\<lambda>j. if uniform_at r (row_offset (raw_batch array m k) i + j)
                                         < real_of_int (raw_batch array m k ! i ! j) / 255
                                      then 1 else 0)
                              [0..<length (raw_batch array m k ! i)])
                    [0..<length (raw_batch array m k)]
           \<and> (\<forall>n. 0 \<le> uniform_at r n \<and> uniform_at r n < 1)
           \<and> unit_interval (normalize (raw_batch array m k))
           \<and> binary b
           \<and> map length b = map length (raw_batch array m k)
           \<and> g_array (gen_at array m (Suc k)) = array"
proof -
  have ok: "pixels_ok (g_array (gen_at array m k))"
    using assms by simp
  obtain b r' where b: "next_gen (gen_at array m k) r = Inr (b, advance (gen_at array m k), r')"
      "binary b" "map length b = map length (fst (select_batch (gen_at array m k)))"
    using next_gen_ok [OF ok] by blast
  have "unit_interval (normalize (raw_batch array m k))"
    unfolding raw_batch_def using pixels_ok_select [OF ok] by (rule normalize_unit_interval)
  with b next_gen_eq [OF ok, of r] uniform_at_range show ?thesis
    by (auto simp: gen_at_Suc raw_batch_def)
qed

text \<open>
  The first batch of a two-row array is its row \<open>[0, 255]\<close>: the intensity 0 always
  yields 0 and the intensity 255 always yields 1.
\<close>

theorem generator_batches_binary_witness:
  "pixels_ok [[0, 255], [128, 3]]
   \<and> next_gen (gen_at [[0, 255], [128, 3]] 1 0) \<lparr>rng_stream = (\<lambda>n. n), rng_pos = 0\<rparr>
       = Inr ([[0, 1]], gen_at [[0, 255], [128, 3]] 1 (Suc 0),
              \<lparr>rng_stream = (\<lambda>n. n), rng_pos = 2\<rparr>)"
proof -
  let ?r = "\<lparr>rng_stream = (\<lambda>n. n), rng_pos = 0\<rparr>"
  have a: "pixels_ok [[0, 255], [128, 3]]"
    by (simp add: pixels_ok_def)
  have raw: "raw_batch [[0, 255], [128, 3::int]] 1 0 = [[0, 255]]"
    by (simp add: raw_batch_def gen_at_def generator_def select_batch_def py_slice_def
        slice_bound_def Let_def)
  have u0: "\<not> uniform_at ?r 0 < 0" and u1: "uniform_at ?r (Suc 0) < 1"
    using uniform_at_range [of ?r 0] uniform_at_range [of ?r "Suc 0"] by simp_all
  have up: "[0..<2] = [0, Suc 0]"
    by (simp add: upt_rec)
  show ?thesis
    using a generator_batches_binary [OF a, of 1 0 ?r] u0 u1
    by (simp add: raw up row_offset_def)
qed

text \<open>
  Claim C6, amended (productivity). For every array whose elements are integers in
  \<open>[0, 255]\<close>, with any number of rows (none, or fewer than the batch size), and every
  integer batch size (zero and negative ones too), any number \<open>k\<close> of consecutive
  \<^verbatim>\<open>next()\<close> calls all return a batch; each call runs the loop body once, which has no
  inner loop.
\<close>

theorem generator_productive:
  assumes "pixels_ok array"
  shows "\<exists>bs r'. run_next k (generator array m) r = Inr (bs, gen_at array m k, r')
           \<and> length bs = k"
proof -
  have "pixels_ok (g_array (generator array m))"
    using assms by (simp add: generator_def)
  from run_next_ok [OF this, of k r] show ?thesis
    by (auto simp: gen_at_def)
qed

text \<open>
  Two rows and a batch size of 5, four calls in a row.
\<close>

theorem generator_productive_witness:
  "pixels_ok [[0, 255], [128, 3]]
   \<and> (\<exists>bs r'. run_next 4 (generator [[0, 255], [128, 3]] 5) \<lparr>rng_stream = (\<lambda>n. n), rng_pos = 0\<rparr>
                = Inr (bs, gen_at [[0, 255], [128, 3]] 5 4, r')
         \<and> length bs = 4)"
  using generator_productive [of "[[0, 255], [128, 3]]" 4 5 "\<lparr>rng_stream = (\<lambda>n. n), rng_pos = 0\<rparr>"]
  by (simp add: pixels_ok_def)

text \<open>
  Claim C6 as stated quantifies over every array. On an array holding the value 256
  the scaled value exceeds 1 and \<^verbatim>\<open>np.random.binomial\<close> raises \<^verbatim>\<open>ValueError\<close>: the first
  \<^verbatim>\<open>next()\<close> yields no batch.
\<close>

theorem generator_raises_on_non_pixel_data:
  "run_next 1 (generator [[256]] 1) \<lparr>rng_stream = (\<lambda>n. n), rng_pos = 0\<rparr> = Inl ValueError"
  by (simp add: generator_def next_gen_def select_batch_def py_slice_def slice_bound_def
      normalize_def binomial_def Let_def)
section \<open>Output directory, networks and plotting\<close>

text \<open>
  Claim C7 (directory-creation guard). When \<open>out_dir\<close> is absent the setup step is the
  call \<^verbatim>\<open>os.makedirs(out_dir)\<close>, which creates it; when \<open>out_dir\<close> exists the step makes no
  call, changes nothing and raises nothing, where the unguarded call would raise
  \<^verbatim>\<open>OSError\<close>; the step always succeeds, and running it again on its result changes
  nothing.
\<close>

theorem out_dir_guard:
  "(\<not> path_exists w out_dir \<longrightarrow>
      (\<exists>w'. setup_out_dir w = Inr w' \<and> makedirs out_dir w = Inr w'
            \<and> path_exists w' out_dir \<and> os_calls w' = os_calls w @ [out_dir]))
   \<and> (path_exists w out_dir \<longrightarrow>
        setup_out_dir w = Inr w \<and> makedirs out_dir w = Inl OSError)
   \<and> (\<exists>w'. setup_out_dir w = Inr w' \<and> setup_out_dir w' = Inr w')"
  by (auto simp: setup_out_dir_def makedirs_def path_exists_def)

text \<open>
  On an empty file system the step creates \<^verbatim>\<open>/tmp\<close> and \<^verbatim>\<open>/tmp/out\<close> with one call; run
  again on the result it does nothing.
\<close>

theorem out_dir_guard_witness:
  "\<not> path_exists empty_fs out_dir
   \<and> path_exists \<lparr>os_paths = {''/tmp'', ''/tmp/out''}, os_calls = [''/tmp/out'']\<rparr> out_dir
   \<and> setup_out_dir empty_fs
       = Inr \<lparr>os_paths = {''/tmp'', ''/tmp/out''}, os_calls = [''/tmp/out'']\<rparr>
   \<and> setup_out_dir \<lparr>os_paths = {''/tmp'', ''/tmp/out''}, os_calls = [''/tmp/out'']\<rparr>
       = Inr \<lparr>os_paths = {''/tmp'', ''/tmp/out''}, os_calls = [''/tmp/out'']\<rparr>"
proof -
  have a: "\<not> path_exists empty_fs out_dir"
    by (simp add: path_exists_def empty_fs_def)
  have b: "path_exists \<lparr>os_paths = {''/tmp'', ''/tmp/out''}, os_calls = [''/tmp/out'']\<rparr> out_dir"
    by (simp add: path_exists_def out_dir_def)
  have anc: "ancestors ''/tmp/out'' = [''/tmp'']"
    by (simp add: ancestors_def upt_rec)
  have c: "makedirs out_dir empty_fs
      = Inr \<lparr>os_paths = {''/tmp'', ''/tmp/out''}, os_calls = [''/tmp/out'']\<rparr>"
    by (auto simp: makedirs_def path_exists_def empty_fs_def out_dir_def anc)
  show ?thesis
    using a b c out_dir_guard [of empty_fs]
      out_dir_guard [of "\<lparr>os_paths = {''/tmp'', ''/tmp/out''}, os_calls = [''/tmp/out'']\<rparr>"]
    by simp
qed

lemma dense_shape: "has_shape (dense p inputs units act) (length inputs) units"
  by (simp add: dense_def has_shape_def list_all_iff)

lemma sigmoid_range: "0 \<le> sigmoid v \<and> sigmoid v \<le> 1"
proof -
  have e: "0 < exp (- v)" by simp
  then have pos: "0 < 1 + exp (- v)" by (simp add: add_pos_pos)
  have "1 \<le> 1 + exp (- v)" using e by simp
  then have "1 / (1 + exp (- v)) \<le> 1"
    using pos by (simp add: divide_le_eq_1_pos)
  moreover have "0 \<le> 1 / (1 + exp (- v))"
    using pos by simp
  ultimately show ?thesis
    by (simp add: sigmoid_def)
qed

lemma dense_sigmoid_range: "unit_interval (dense p inputs units (Some sigmoid))"
  by (simp add: dense_def unit_interval_def list_all_iff sigmoid_range)

lemma generative_network_shape:
  "has_shape (generative_network \<theta> eps) (length eps) 784"
proof -
  have "has_shape (generative_network \<theta> eps)
      (length (dense (layer1 \<theta>) eps 128 (Some relu))) 784"
    unfolding generative_network_def Let_def by (rule dense_shape)
  then show ?thesis by (simp add: dense_def)
qed

lemma discriminative_network_shape:
  "has_shape (discriminative_network \<phi> x) (length x) 1"
proof -
  have "has_shape (discriminative_network \<phi> x)
      (length (dense (layer1 \<phi>) x 128 (Some relu))) 1"
    unfolding discriminative_network_def Let_def by (rule dense_shape)
  then show ?thesis by (simp add: dense_def)
qed

lemma sum_list_zero: "sum_list (map (\<lambda>i. f i * (0::real)) xs) = 0"
  by (induction xs) simp_all

lemma discriminative_network_any_logit:
  "discriminative_network
     \<lparr>layer1 = p, layer2 = \<lparr>kernel = (\<lambda>i j. 0), bias = (\<lambda>j. y)\<rparr>\<rparr> x
   = replicate (length x) [y]"
  by (induction x) (simp_all add: discriminative_network_def dense_def Let_def sum_list_zero)

text \<open>
  Claim C5 (network shapes and ranges). For every choice of the layers' variables,
  \<open>generative_network\<close> maps an input of shape \<open>[m, n]\<close> to an output of shape
  \<open>[m, 784]\<close> whose elements all lie in \<open>[0, 1]\<close>, and \<open>discriminative_network\<close> maps an
  input of shape \<open>[m, 784]\<close> to shape \<open>[m, 1]\<close>, one logit per row; the logit is
  unconstrained: with a zero kernel and bias \<open>y\<close> in the last layer it is \<open>y\<close>, for
  every real \<open>y\<close>.
\<close>

theorem network_shapes:
  assumes "has_shape eps m n" and "has_shape x m 784"
  shows "has_shape (generative_network \<theta> eps) m 784
         \<and> unit_interval (generative_network \<theta> eps)
         \<and> has_shape (discriminative_network \<phi> x) m 1
         \<and> (\<forall>y. discriminative_network
                   \<lparr>layer1 = layer1 \<phi>, layer2 = \<lparr>kernel = (\<lambda>i j. 0), bias = (\<lambda>j. y)\<rparr>\<rparr> x
                 = replicate m [y])"
proof -
  have m: "length eps = m" "length x = m"
    using assms by (simp_all add: has_shape_def)
  have "unit_interval (generative_network \<theta> eps)"
    unfolding generative_network_def Let_def by (rule dense_sigmoid_range)
  then show ?thesis
    using generative_network_shape [of \<theta> eps] discriminative_network_shape [of \<phi> x]
      discriminative_network_any_logit [of "layer1 \<phi>" _ x] m
    by simp
qed

text \<open>
  Two rows of three noise values, and two all-zero images.
\<close>

theorem network_shapes_witness:
  "has_shape [[0, 1/2, -1], [1, 1, 1::real]] 2 3
   \<and> has_shape (replicate 2 (replicate 784 (0::real))) 2 784
   \<and> has_shape (generative_network zero_params [[0, 1/2, -1], [1, 1, 1]]) 2 784
   \<and> unit_interval (generative_network zero_params [[0, 1/2, -1], [1, 1, 1]])
   \<and> has_shape (discriminative_network zero_params (replicate 2 (replicate 784 0))) 2 1"
proof -
  have a: "has_shape [[0, 1/2, -1], [1, 1, 1::real]] 2 3"
    by (simp add: has_shape_def)
  have b: "has_shape (replicate 2 (replicate 784 (0::real))) 2 784"
    by (simp add: has_shape_def list_all_iff)
  show ?thesis
    using a b network_shapes [OF a b, of zero_params zero_params] by simp
qed

lemma randint_ok:
  assumes "0 < high"
  shows "\<exists>idx r'. randint high n r = Inr (idx, r') \<and> length idx = n
           \<and> list_all (\<lambda>k. 0 \<le> k \<and> k < high) idx"
  using assms by (simp add: randint_def list_all_iff)

lemma randint_M: "\<exists>idx r'. randint (int M) 16 r = Inr (idx, r') \<and> idx_ok idx"
  using randint_ok [of "int M" 16 r] by (simp add: idx_ok_def M_def)

lemma take_rows_ok:
  assumes "list_all (\<lambda>k. 0 \<le> k \<and> k < int (length xs)) idx"
  shows "take_rows xs idx = Inr (map (\<lambda>k. xs ! nat k) idx)"
proof -
  have "\<not> list_ex (\<lambda>k. k < - int (length xs) \<or> int (length xs) \<le> k) idx"
    using assms by (fastforce simp: list_all_iff list_ex_iff)
  moreover have "map (\<lambda>k. xs ! nat (if k < 0 then k + int (length xs) else k)) idx
      = map (\<lambda>k. xs ! nat k) idx"
    using assms by (auto simp: list_all_iff)
  ultimately show ?thesis
    by (simp add: take_rows_def Let_def)
qed

lemma run_x_shape: "has_shape (fst (run_x s)) M 784"
proof -
  obtain eps r' where e: "sample_eps (s_rng s) = (eps, r')"
    by (cases "sample_eps (s_rng s)")
  then have "length eps = M"
    by (auto simp: sample_eps_def)
  then show ?thesis
    using generative_network_shape [of "s_theta s" eps] e by (simp add: run_x_def)
qed

lemma take_rows_run_x:
  assumes "idx_ok idx"
  shows "\<exists>rows. take_rows (fst (run_x s)) idx = Inr rows \<and> has_shape rows 16 784"
proof -
  let ?xs = "fst (run_x s)"
  have sh: "length ?xs = M" "list_all (\<lambda>row. length row = 784) ?xs"
    using run_x_shape [of s] by (simp_all add: has_shape_def)
  have ok: "list_all (\<lambda>k. 0 \<le> k \<and> k < int (length ?xs)) idx"
    using assms sh(1) by (simp add: idx_ok_def)
  have "take_rows ?xs idx = Inr (map (\<lambda>k. ?xs ! nat k) idx)"
    using ok by (rule take_rows_ok)
  moreover have "has_shape (map (\<lambda>k. ?xs ! nat k) idx) 16 784"
    using assms sh by (auto simp: has_shape_def idx_ok_def list_all_iff)
  ultimately show ?thesis by blast
qed

lemma plot_from_iff:
  "(\<exists>fig'. plot_from i samples fig = Inr fig')
     = (samples = [] \<or> (i + length samples \<le> 16 \<and> list_all (\<lambda>row. length row = 784) samples))"
proof (induction samples arbitrary: i fig)
  case Nil
  show ?case by simp
next
  case (Cons sample samples)
  show ?case
  proof (cases "i < 16 \<and> length sample = 784")
    case True
    then show ?thesis
      using Cons.IH [of "Suc i"]
      by (cases samples) (auto simp: gridspec_index_def reshape_def)
  next
    case False
    then show ?thesis
      by (auto simp: gridspec_index_def reshape_def)
  qed
qed

lemma plot_from_length:
  "plot_from i samples fig = Inr fig' \<Longrightarrow> length fig' = length fig + length samples"
proof (induction samples arbitrary: i fig)
  case Nil
  then show ?case by simp
next
  case (Cons sample samples)
  then show ?case
    by (auto simp: gridspec_index_def reshape_def split: if_splits)
qed

lemma plot_iff:
  "(\<exists>fig. plot samples = Inr fig)
     = (length samples \<le> 16 \<and> list_all (\<lambda>row. length row = 784) samples)"
  unfolding plot_def using plot_from_iff [of 0 samples "[]"] by auto

lemma plot_ok:
  assumes "has_shape rows 16 784"
  shows "\<exists>fig. plot rows = Inr fig \<and> length fig = 16"
proof -
  have "\<exists>fig. plot rows = Inr fig"
    using assms by (simp add: plot_iff has_shape_def)
  then obtain fig where fig: "plot rows = Inr fig" by blast
  then have "length fig = 16"
    using plot_from_length [of 0 rows "[]" fig] assms by (simp add: plot_def has_shape_def)
  with fig show ?thesis by blast
qed

text \<open>
  Claim C10 (the preconditions of \<open>plot\<close>). \<open>plot\<close> returns a figure exactly when it is
  given at most 16 samples of exactly 784 elements each. For every session and every
  state of the random number generator, the 16 indices drawn by
  \<^verbatim>\<open>np.random.randint(M, size=16)\<close> select 16 rows of 784 elements from the model output
  \<^verbatim>\<open>sess.run(x)\<close>, and \<open>plot\<close> returns a figure of 16 axes for them: neither the
  indexing, nor the grid lookup, nor the reshape raises.
\<close>

theorem plot_preconditions_met:
  "((\<exists>fig. plot samples = Inr fig)
      = (length samples \<le> 16 \<and> list_all (\<lambda>row. length row = 784) samples))
   \<and> (\<exists>idx r' rows fig.
         randint (int M) 16 r = Inr (idx, r')
       \<and> take_rows (fst (run_x s)) idx = Inr rows
       \<and> has_shape rows 16 784
       \<and> plot rows = Inr fig \<and> length fig = 16)"
proof -
  obtain idx r' where idx: "randint (int M) 16 r = Inr (idx, r')" "idx_ok idx"
    using randint_M by blast
  obtain rows where rows: "take_rows (fst (run_x s)) idx = Inr rows" "has_shape rows 16 784"
    using take_rows_run_x [OF idx(2)] by blast
  obtain fig where "plot rows = Inr fig" "length fig = 16"
    using plot_ok [OF rows(2)] by blast
  with idx rows show ?thesis
    using plot_iff [of samples] by blast
qed

text \<open>
  With the sample session and random state: 16 rows are selected and plotted.
\<close>

theorem plot_preconditions_met_witness:
  "\<exists>idx r' rows fig.
      randint (int M) 16 counting_rng = Inr (idx, r')
    \<and> take_rows (fst (run_x sample_session)) idx = Inr rows
    \<and> has_shape rows 16 784
    \<and> plot rows = Inr fig \<and> length fig = 16"
  using plot_preconditions_met [of "[]" counting_rng sample_session] by blast

section \<open>File names of the figures\<close>

lemma str_digit: "n < 10 \<Longrightarrow> str n = [''0123456789'' ! n]"
  by (subst str.simps) simp

lemma str_two: "10 \<le> n \<Longrightarrow> n < 100 \<Longrightarrow>
    str n = [''0123456789'' ! (n div 10), ''0123456789'' ! (n mod 10)]"
  by (subst str.simps) (simp add: str_digit)

lemma path_template: "path_join out_dir ''{}.png'' = ''/tmp/out/{}.png''"
  by (simp add: path_join_def out_dir_def)

lemma replicate_two: "replicate 2 x = [x, x]"
  by (simp add: numeral_2_eq_2)


lemma fig_paths:
  "map (\<lambda>k. (1000 * k, fig_path k)) [0..<15] =
     [(0, ''/tmp/out/000.png''), (1000, ''/tmp/out/001.png''), (2000, ''/tmp/out/002.png''),
      (3000, ''/tmp/out/003.png''), (4000, ''/tmp/out/004.png''), (5000, ''/tmp/out/005.png''),
      (6000, ''/tmp/out/006.png''), (7000, ''/tmp/out/007.png''), (8000, ''/tmp/out/008.png''),
      (9000, ''/tmp/out/009.png''), (10000, ''/tmp/out/010.png''), (11000, ''/tmp/out/011.png''),
      (12000, ''/tmp/out/012.png''), (13000, ''/tmp/out/013.png''), (14000, ''/tmp/out/014.png'')]"
proof -
  have u: "[0..<15] = [0, 1, 2, 3, 4, 5, 6, 7, 8, 9, 10, 11, 12, 13, 14::nat]"
    by (simp add: upt_rec)
  show ?thesis
    unfolding u
    by (simp add: fig_path_def path_template str_digit str_two zfill_def replicate_two
        del: str.simps)
qed
section \<open>The training loop and the order of the notebook\<close>

lemma div_block:
  assumes "r < (p::nat)"
  shows "(r + k * p) div p = k"
  using assms by simp

lemma ceil_div_step:
  assumes "0 < (p::nat)"
  shows "(Suc a + p - 1) div p = (a + p - 1) div p + (if a mod p = 0 then 1 else 0)"
proof -
  obtain p' where p: "p = Suc p'"
    using assms by (cases p) simp_all
  define q where "q = a div p"
  define r where "r = a mod p"
  have a: "a = r + q * p" and r: "r < p"
    using assms by (simp_all add: q_def r_def)
  have l: "(Suc a + p - 1) div p = Suc q"
  proof -
    have "Suc a + p - 1 = r + Suc q * p"
      using a p by simp
    then show ?thesis
      using div_block [OF r, of "Suc q"] by (simp only:)
  qed
  show ?thesis
  proof (cases "r = 0")
    case True
    have "a + p - 1 = p' + q * p"
      using a p True by simp
    moreover have "p' < p" using p by simp
    ultimately have "(a + p - 1) div p = q"
      using div_block [of p' p q] by (simp only:)
    then show ?thesis
      using l True by (simp add: r_def)
  next
    case False
    then obtain r' where r': "r = Suc r'"
      by (cases r) simp_all
    have "a + p - 1 = r' + Suc q * p"
      using a p r' by simp
    moreover have "r' < p" using r r' by simp
    ultimately have "(a + p - 1) div p = Suc q"
      using div_block [of r' p "Suc q"] by (simp only:)
    then show ?thesis
      using l False by (simp add: r_def)
  qed
qed

lemma ceil_div_multiple:
  assumes "0 < (p::nat)" "a mod p = 0"
  shows "(a + p - 1) div p = a div p"
proof -
  obtain p' where p: "p = Suc p'"
    using assms by (cases p) simp_all
  define q where "q = a div p"
  have a: "a = q * p"
    using assms(2) by (auto simp: q_def)
  have "a + p - 1 = p' + q * p"
    using a p by simp
  moreover have "p' < p" using p by simp
  ultimately have "(a + p - 1) div p = q"
    using div_block [of p' p q] by (simp only:)
  then show ?thesis by (simp add: q_def)
qed

lemma filter_block:
  assumes "0 < (p::nat)"
  shows "filter (\<lambda>t. t mod p = 0) [p * n..<p * n + p] = [p * n]"
proof -
  have "[p * n..<p * n + p] = (p * n) # [Suc (p * n)..<p * n + p]"
    using assms by (simp add: upt_conv_Cons)
  moreover have "filter (\<lambda>t. t mod p = 0) [Suc (p * n)..<p * n + p] = []"
  proof -
    have "t mod p \<noteq> 0" if "Suc (p * n) \<le> t" "t < p * n + p" for t
    proof -
      define j where "j = t - p * n"
      have j: "t = j + n * p" "0 < j" "j < p"
        using that by (simp_all add: j_def mult.commute)
      from j(1,3) have "t mod p = j" by simp
      with j show ?thesis by simp
    qed
    then show ?thesis by (auto simp: filter_empty_conv)
  qed
  ultimately show ?thesis by simp
qed

lemma filter_multiples:
  assumes "0 < (p::nat)"
  shows "filter (\<lambda>t. t mod p = 0) [0..<p * n] = map (\<lambda>k. p * k) [0..<n]"
proof (induction n)
  case 0
  show ?case by simp
next
  case (Suc n)
  have "[0..<p * Suc n] = [0..<p * n] @ [p * n..<p * n + p]"
    using upt_add_eq_append [of 0 "p * n" p] by (simp add: add.commute)
  then show ?case
    using Suc filter_block [OF assms, of n] by simp
qed

lemma batch_shape:
  assumes "training_data x_train"
    and "next_gen (gen_at x_train (int M) j) r = Inr (b, g', r')"
  shows "has_shape b M 784" and "g' = gen_at x_train (int M) (Suc j)"
proof -
  let ?N = "length x_train"
  have M1: "1 \<le> M" by (simp add: M_def)
  have MN: "M \<le> ?N" and rows: "list_all (\<lambda>row. length row = 784) x_train"
    using assms(1) by (simp_all add: training_data_def)
  have N: "0 < ?N" using M1 MN by linarith
  have raw: "raw_batch x_train (int M) j
      = map (\<lambda>i. x_train ! ((j * M + i) mod ?N)) [0..<M]"
    using M1 MN by (rule raw_batch_indices)
  have "length (x_train ! ((j * M + i) mod ?N)) = 784" for i
    using rows N by (simp add: list_all_length)
  then have lens: "map length (raw_batch x_train (int M) j) = replicate M 784"
    unfolding raw by (simp add: comp_def map_replicate_const)
  have "map length b = map length (raw_batch x_train (int M) j)"
    using next_gen_rows(1) [OF assms(2)] by (simp add: raw_batch_def)
  then have b: "map length b = replicate M 784"
    using lens by simp
  then have "length b = M"
    by (metis length_map length_replicate)
  moreover have "list_all (\<lambda>row. length row = 784) b"
  proof -
    have "set (map length b) \<subseteq> {784}"
      unfolding b by auto
    then show ?thesis by (auto simp: list_all_iff)
  qed
  ultimately show "has_shape b M 784"
    by (simp add: has_shape_def)
  show "g' = gen_at x_train (int M) (Suc j)"
    using next_gen_rows(2) [OF assms(2)] by (simp add: gen_at_Suc)
qed

lemma render_ok:
  assumes "idx_ok idx"
  shows "\<exists>fig. plot (map (\<lambda>k. fst (run_x (ts_sess st)) ! nat k) idx) = Inr fig
           \<and> length fig = 16
           \<and> render idx t st =
               Inr (st\<lparr>ts_sess := snd (run_x (ts_sess st)),
                       ts_files := ts_files st @ [(fig_path (ts_i st), fig)],
                       ts_i := ts_i st + 1,
                       ts_trace := ts_trace st
                         @ [SessRun t, Plot t idx, SaveFig t (fig_path (ts_i st)),
                            CloseFig t]\<rparr>)"
proof -
  obtain samples s' where run: "run_x (ts_sess st) = (samples, s')"
    by (cases "run_x (ts_sess st)")
  have sh: "length samples = M"
    using run_x_shape [of "ts_sess st"] run by (simp add: has_shape_def)
  have "list_all (\<lambda>k. 0 \<le> k \<and> k < int (length samples)) idx"
    using assms sh by (simp add: idx_ok_def)
  then have rows: "take_rows samples idx = Inr (map (\<lambda>k. samples ! nat k) idx)"
    by (rule take_rows_ok)
  obtain rows' where "take_rows samples idx = Inr rows'" "has_shape rows' 16 784"
    using take_rows_run_x [OF assms, of "ts_sess st"] run by auto
  then have "has_shape (map (\<lambda>k. samples ! nat k) idx) 16 784"
    using rows by simp
  then obtain fig where fig: "plot (map (\<lambda>k. samples ! nat k) idx) = Inr fig" "length fig = 16"
    using plot_ok by blast
  show ?thesis
    using run rows fig by (simp add: render_def)
qed

lemma iteration_ok:
  assumes "training_data x_train" and "ts_gen st = gen_at x_train (int M) j"
    and "0 < n_print inference" and "idx_ok idx"
  shows "\<exists>st' fig.
           iteration upd inference idx t st = Inr st'
         \<and> ts_gen st' = gen_at x_train (int M) (Suc j)
         \<and> ts_i st' = ts_i st + (if t mod n_print inference = 0 then 1 else 0)
         \<and> plot (map (\<lambda>k. fst (run_x (ts_sess st)) ! nat k) idx) = Inr fig
         \<and> length fig = 16
         \<and> ts_files st' = ts_files st
              @ (if t mod n_print inference = 0 then [(fig_path (ts_i st), fig)] else [])
         \<and> ts_trace st' = ts_trace st
              @ (if t mod n_print inference = 0
                 then [SessRun t, Plot t idx, SaveFig t (fig_path (ts_i st)), CloseFig t]
                 else [])
              @ [NextBatch t, Update t, PrintProgress t]"
proof -
  obtain fig where fig: "plot (map (\<lambda>k. fst (run_x (ts_sess st)) ! nat k) idx) = Inr fig"
      "length fig = 16"
      "render idx t st =
         Inr (st\<lparr>ts_sess := snd (run_x (ts_sess st)),
                 ts_files := ts_files st @ [(fig_path (ts_i st), fig)],
                 ts_i := ts_i st + 1,
                 ts_trace := ts_trace st
                   @ [SessRun t, Plot t idx, SaveFig t (fig_path (ts_i st)), CloseFig t]\<rparr>)"
    using render_ok [OF assms(4), of st t] by blast
  define st1 where "st1 =
    (if t mod n_print inference = 0
     then st\<lparr>ts_sess := snd (run_x (ts_sess st)),
             ts_files := ts_files st @ [(fig_path (ts_i st), fig)],
             ts_i := ts_i st + 1,
             ts_trace := ts_trace st
               @ [SessRun t, Plot t idx, SaveFig t (fig_path (ts_i st)), CloseFig t]\<rparr>
     else st)"
  have first: "(if t mod n_print inference = 0 then render idx t st else Inr st) = Inr st1"
    using fig(3) by (simp add: st1_def)
  have gen1: "ts_gen st1 = gen_at x_train (int M) j"
    using assms(2) by (simp add: st1_def)
  have "pixels_ok (g_array (ts_gen st1))"
    using assms(1) gen1 by (simp add: training_data_def)
  then obtain b r' where b: "next_gen (ts_gen st1) (ts_rng st1) = Inr (b, advance (ts_gen st1), r')"
    using next_gen_ok by blast
  have shape: "has_shape b M 784"
    using batch_shape(1) [OF assms(1)] b gen1 by simp
  have adv: "advance (ts_gen st1) = gen_at x_train (int M) (Suc j)"
    using gen1 by (simp add: gen_at_Suc)
  have "iteration upd inference idx t st =
      Inr (st1\<lparr>ts_gen := advance (ts_gen st1), ts_rng := r',
               ts_sess := upd (ts_sess st1) b,
               ts_trace := ts_trace st1 @ [NextBatch t, Update t, PrintProgress t]\<rparr>)"
    unfolding iteration_def using assms(3) first b shape by (simp add: inference_update_def)
  then show ?thesis
    using adv fig(1,2) by (auto simp: st1_def)
qed

lemma train_iters_append:
  "train_iters upd inference idx (xs @ ys) st =
     (case train_iters upd inference idx xs st of
        Inl e \<Rightarrow> Inl e
      | Inr st' \<Rightarrow> train_iters upd inference idx ys st')"
  by (induction xs arbitrary: st) (simp_all split: sum.splits)

lemma train_iters_ok:
  assumes "training_data x_train" and "0 < n_print inference" and "idx_ok idx"
    and "ts_gen st = gen_at x_train (int M) j"
    and "ts_i st = (a + n_print inference - 1) div n_print inference"
  shows "\<exists>st' figs.
           train_iters upd inference idx [a..<a + n] st = Inr st'
         \<and> ts_gen st' = gen_at x_train (int M) (j + n)
         \<and> ts_i st' = (a + n + n_print inference - 1) div n_print inference
         \<and> ts_files st' = ts_files st @ figs
         \<and> map fst figs = map (\<lambda>t. fig_path (t div n_print inference))
                             (filter (\<lambda>t. t mod n_print inference = 0) [a..<a + n])
         \<and> list_all (\<lambda>f. length (snd f) = 16) figs
         \<and> ts_trace st' = ts_trace st
              @ concat (map (iteration_events inference idx) [a..<a + n])"
  using assms(4,5)
proof (induction n arbitrary: a j st)
  case 0
  show ?case using "0.prems" by simp
next
  case (Suc n)
  let ?p = "n_print inference"
  obtain st1 fig where st1: "iteration upd inference idx a st = Inr st1"
      "ts_gen st1 = gen_at x_train (int M) (Suc j)"
      "ts_i st1 = ts_i st + (if a mod ?p = 0 then 1 else 0)"
      "length fig = 16"
      "ts_files st1 = ts_files st @ (if a mod ?p = 0 then [(fig_path (ts_i st), fig)] else [])"
      "ts_trace st1 = ts_trace st
         @ (if a mod ?p = 0
            then [SessRun a, Plot a idx, SaveFig a (fig_path (ts_i st)), CloseFig a]
            else [])
         @ [NextBatch a, Update a, PrintProgress a]"
    using iteration_ok [OF assms(1) Suc.prems(1) assms(2,3), of upd a] by blast
  have idiv: "a mod ?p = 0 \<Longrightarrow> ts_i st = a div ?p"
    using Suc.prems(2) ceil_div_multiple [OF assms(2), of a] by simp
  have ev: "ts_trace st1 = ts_trace st @ iteration_events inference idx a"
    using st1(6) idiv by (simp add: iteration_events_def)
  have i1: "ts_i st1 = (Suc a + ?p - 1) div ?p"
    using st1(3) Suc.prems(2) ceil_div_step [OF assms(2), of a] by simp
  obtain st' figs where st': "train_iters upd inference idx [Suc a..<Suc a + n] st1 = Inr st'"
      "ts_gen st' = gen_at x_train (int M) (Suc j + n)"
      "ts_i st' = (Suc a + n + ?p - 1) div ?p"
      "ts_files st' = ts_files st1 @ figs"
      "map fst figs = map (\<lambda>t. fig_path (t div ?p))
                        (filter (\<lambda>t. t mod ?p = 0) [Suc a..<Suc a + n])"
      "list_all (\<lambda>f. length (snd f) = 16) figs"
      "ts_trace st' = ts_trace st1
         @ concat (map (iteration_events inference idx) [Suc a..<Suc a + n])"
    using Suc.IH [OF st1(2) i1] by blast
  have split: "[a..<a + Suc n] = a # [Suc a..<Suc a + n]"
    by (simp add: upt_conv_Cons)
  let ?figs = "(if a mod ?p = 0 then [(fig_path (ts_i st), fig)] else []) @ figs"
  have "train_iters upd inference idx [a..<a + Suc n] st = Inr st'"
    unfolding split using st1(1) st'(1) by simp
  moreover have "ts_gen st' = gen_at x_train (int M) (j + Suc n)"
    using st'(2) by simp
  moreover have "ts_i st' = (a + Suc n + ?p - 1) div ?p"
    using st'(3) by simp
  moreover have "ts_files st' = ts_files st @ ?figs"
    using st'(4) st1(5) by simp
  moreover have "map fst ?figs = map (\<lambda>t. fig_path (t div ?p))
      (filter (\<lambda>t. t mod ?p = 0) [a..<a + Suc n])"
    unfolding split using st'(5) idiv by simp
  moreover have "list_all (\<lambda>f. length (snd f) = 16) ?figs"
    using st'(6) st1(4) by simp
  moreover have "ts_trace st' = ts_trace st
      @ concat (map (iteration_events inference idx) [a..<a + Suc n])"
    unfolding split using st'(7) ev by simp
  ultimately show ?case by blast
qed

lemma update_iters_append: "update_iters (xs @ ys) = update_iters xs @ update_iters ys"
  by (induction xs rule: update_iters.induct) simp_all

lemma batch_iters_append: "batch_iters (xs @ ys) = batch_iters xs @ batch_iters ys"
  by (induction xs rule: batch_iters.induct) simp_all

lemma saved_figs_append: "saved_figs (xs @ ys) = saved_figs xs @ saved_figs ys"
  by (induction xs rule: saved_figs.induct) simp_all

lemma plotted_append: "plotted (xs @ ys) = plotted xs @ plotted ys"
  by (induction xs rule: plotted.induct) simp_all

lemma drawn_idx_append: "drawn_idx (xs @ ys) = drawn_idx xs @ drawn_idx ys"
  by (induction xs rule: drawn_idx.induct) simp_all

lemma update_iters_events:
  "update_iters (concat (map (iteration_events inference idx) ts)) = ts"
  by (induction ts) (simp_all add: update_iters_append iteration_events_def)

lemma batch_iters_events:
  "batch_iters (concat (map (iteration_events inference idx) ts)) = ts"
  by (induction ts) (simp_all add: batch_iters_append iteration_events_def)

lemma drawn_idx_events:
  "drawn_idx (concat (map (iteration_events inference idx) ts)) = []"
  by (induction ts) (simp_all add: drawn_idx_append iteration_events_def)

lemma saved_figs_events:
  "saved_figs (concat (map (iteration_events inference idx) ts))
     = map (\<lambda>t. (t, fig_path (t div n_print inference)))
         (filter (\<lambda>t. t mod n_print inference = 0) ts)"
  by (induction ts) (simp_all add: saved_figs_append iteration_events_def)

lemma plotted_events:
  "plotted (concat (map (iteration_events inference idx) ts))
     = map (\<lambda>t. (t, idx)) (filter (\<lambda>t. t mod n_print inference = 0) ts)"
  by (induction ts) (simp_all add: plotted_append iteration_events_def)

lemma print_iters: "filter (\<lambda>t. t mod 1000 = 0) [0..<15000] = map (\<lambda>k. 1000 * k) [0..<15]"
  using filter_multiples [of 1000 15] by simp

lemma saved_figs_all:
  "saved_figs (concat (map (iteration_events (initialize 15000 1000) idx) [0..<15000]))
     = map (\<lambda>k. (1000 * k, fig_path k)) [0..<15]"
  by (simp add: saved_figs_events initialize_def print_iters comp_def)

lemma plotted_all:
  "plotted (concat (map (iteration_events (initialize 15000 1000) idx) [0..<15000]))
     = map (\<lambda>k. (1000 * k, idx)) [0..<15]"
  by (simp add: plotted_events initialize_def print_iters comp_def)

lemma upt_split: "t < n \<Longrightarrow> [0..<n] = [0..<t] @ t # [Suc t..<n]"
  using upt_add_eq_append [of 0 t "n - t"] by (simp add: upt_conv_Cons)




text \<open>The training cell on training data.\<close>

lemma train_loop_run:
  assumes "training_data x_train" and "ts_gen st0 = generator x_train (int M)"
  shows "\<exists>idx r' st figs.
           randint (int M) 16 (ts_rng st0) = Inr (idx, r') \<and> idx_ok idx
         \<and> train_loop upd (initialize 15000 1000) st0 = Inr st
         \<and> train_iters upd (initialize 15000 1000) idx [0..<15000] (start_loop st0 idx r')
             = Inr st
         \<and> ts_gen st = gen_at x_train (int M) 15000
         \<and> ts_i st = 15
         \<and> ts_files st = ts_files st0 @ figs
         \<and> map fst figs = map fig_path [0..<15]
         \<and> list_all (\<lambda>f. length (snd f) = 16) figs
         \<and> ts_trace st = ts_trace st0 @ [DrawIdx idx]
              @ concat (map (iteration_events (initialize 15000 1000) idx) [0..<15000])"
proof -
  let ?inf = "initialize 15000 1000"
  obtain idx r' where idx: "randint (int M) 16 (ts_rng st0) = Inr (idx, r')" "idx_ok idx"
    using randint_M by blast
  let ?st1 = "start_loop st0 idx r'"
  have p: "0 < n_print ?inf" and n: "n_iter ?inf = 15000" and np: "n_print ?inf = 1000"
    by (simp_all add: initialize_def)
  have g: "ts_gen ?st1 = gen_at x_train (int M) 0"
    using assms(2) by (simp add: start_loop_def gen_at_def)
  have i0: "ts_i ?st1 = (0 + n_print ?inf - 1) div n_print ?inf"
    by (simp add: np start_loop_def)
  obtain st figs where st: "train_iters upd ?inf idx [0..<0 + 15000] ?st1 = Inr st"
      "ts_gen st = gen_at x_train (int M) (0 + 15000)"
      "ts_i st = (0 + 15000 + n_print ?inf - 1) div n_print ?inf"
      "ts_files st = ts_files ?st1 @ figs"
      "map fst figs = map (\<lambda>t. fig_path (t div n_print ?inf))
                        (filter (\<lambda>t. t mod n_print ?inf = 0) [0..<0 + 15000])"
      "list_all (\<lambda>f. length (snd f) = 16) figs"
      "ts_trace st = ts_trace ?st1 @ concat (map (iteration_events ?inf idx) [0..<0 + 15000])"
    using train_iters_ok [OF assms(1) p idx(2) g i0, of upd 15000] by blast
  have "train_loop upd ?inf st0 = Inr st"
    using idx(1) st(1) by (simp add: train_loop_def n)
  moreover have "train_iters upd ?inf idx [0..<15000] ?st1 = Inr st"
    using st(1) by simp
  moreover have "ts_gen st = gen_at x_train (int M) 15000"
    using st(2) by simp
  moreover have "ts_i st = 15"
    using st(3) by (simp add: np)
  moreover have "ts_files st = ts_files st0 @ figs"
    using st(4) by (simp add: start_loop_def)
  moreover have "map fst figs = map fig_path [0..<15]"
    using st(5) by (simp add: np print_iters comp_def)
  moreover have "ts_trace st = ts_trace st0 @ [DrawIdx idx]
      @ concat (map (iteration_events ?inf idx) [0..<15000])"
    using st(7) by (simp add: start_loop_def)
  ultimately show ?thesis
    using idx st(6) by blast
qed

text \<open>The figure written at iteration \<open>1000 * k\<close> is the plot of the rows \<open>idx\<close> of the
  model output, for the session as the first \<open>1000 * k\<close> iterations have left it.\<close>

lemma figure_content:
  assumes "training_data x_train" and "idx_ok idx"
    and "ts_gen st1 = gen_at x_train (int M) 0" and "ts_i st1 = 0"
    and "train_iters upd (initialize 15000 1000) idx [0..<15000] st1 = Inr st"
    and "k < 15"
  shows "\<exists>st_k before after fig.
           train_iters upd (initialize 15000 1000) idx [0..<1000 * k] st1 = Inr st_k
         \<and> plot (map (\<lambda>i. fst (run_x (ts_sess st_k)) ! nat i) idx) = Inr fig
         \<and> ts_files st = ts_files st1 @ before @ (fig_path k, fig) # after
         \<and> length before = k"
proof -
  let ?inf = "initialize 15000 1000"
  let ?t = "1000 * k"
  have p: "0 < n_print ?inf" and np: "n_print ?inf = 1000"
    by (simp_all add: initialize_def)
  have t: "?t < 15000" using assms(6) by simp
  have tm: "?t mod n_print ?inf = 0" and td: "?t div n_print ?inf = k"
    by (simp_all add: np)
  have i1: "ts_i st1 = (0 + n_print ?inf - 1) div n_print ?inf"
    using assms(4) by (simp add: np)
  obtain st_k before where a: "train_iters upd ?inf idx [0..<0 + ?t] st1 = Inr st_k"
      "ts_gen st_k = gen_at x_train (int M) (0 + ?t)"
      "ts_i st_k = (0 + ?t + n_print ?inf - 1) div n_print ?inf"
      "ts_files st_k = ts_files st1 @ before"
      "map fst before = map (\<lambda>t. fig_path (t div n_print ?inf))
                          (filter (\<lambda>t. t mod n_print ?inf = 0) [0..<0 + ?t])"
    using train_iters_ok [OF assms(1) p assms(2,3) i1, of upd ?t] by blast
  have ik: "ts_i st_k = k"
    using a(3) ceil_div_multiple [OF p tm] td by simp
  have "length (map fst before) = k"
    unfolding a(5) using filter_multiples [of 1000 k] by (simp add: np)
  then have lb: "length before = k" by simp
  obtain st_k' fig where b: "iteration upd ?inf idx ?t st_k = Inr st_k'"
      "ts_gen st_k' = gen_at x_train (int M) (Suc (0 + ?t))"
      "ts_i st_k' = ts_i st_k + (if ?t mod n_print ?inf = 0 then 1 else 0)"
      "plot (map (\<lambda>i. fst (run_x (ts_sess st_k)) ! nat i) idx) = Inr fig"
      "ts_files st_k' = ts_files st_k
         @ (if ?t mod n_print ?inf = 0 then [(fig_path (ts_i st_k), fig)] else [])"
    using iteration_ok [OF assms(1) a(2) p assms(2), of upd ?t] by blast
  have files_k': "ts_files st_k' = ts_files st1 @ before @ [(fig_path k, fig)]"
    using b(5) a(4) tm ik by simp
  have i2: "ts_i st_k' = (Suc ?t + n_print ?inf - 1) div n_print ?inf"
    using b(3) a(3) ceil_div_step [OF p, of ?t] by simp
  define n where "n = 15000 - Suc ?t"
  have n: "Suc ?t + n = 15000"
    using t by (simp add: n_def)
  obtain st_end after where c: "train_iters upd ?inf idx [Suc ?t..<Suc ?t + n] st_k' = Inr st_end"
      "ts_files st_end = ts_files st_k' @ after"
    using train_iters_ok [OF assms(1) p assms(2) b(2) i2, of upd n] by blast
  have "[0..<15000] = [0..<?t] @ ?t # [Suc ?t..<Suc ?t + n]"
    unfolding n using t by (rule upt_split)
  then have "train_iters upd ?inf idx [0..<15000] st1 = Inr st_end"
    using a(1) b(1) c(1) by (simp add: train_iters_append)
  then have "st = st_end"
    using assms(5) by simp
  then have "ts_files st = ts_files st1 @ before @ (fig_path k, fig) # after"
    using c(2) files_k' by simp
  then show ?thesis
    using a(1) b(4) lb by auto
qed

lemma out_dir_step: "\<exists>w'. setup_out_dir w = Inr w'"
  by (simp add: setup_out_dir_def makedirs_def)

text \<open>The cells before the training cell, and the training cell after them.\<close>

lemma notebook_cells:
  assumes "setup_out_dir w = Inr w'"
  shows "notebook lib w r =
     (case train_loop (lib_update lib) (initialize 15000 1000)
             \<lparr>ts_i = 0, ts_gen = generator (lib_mnist lib data_dir) (int M),
              ts_rng = lib_seed lib 42, ts_sess = lib_session lib, ts_files = [],
              ts_trace =
                [Define ''plot'', SetSeed 42, SetupOutDir, Define ''generator'',
                 LoadData data_dir, NewGenerator, Placeholder,
                 Define ''generative_network'', BuildModel,
                 Define ''discriminative_network'', NewInference, NewOptimizers,
                 NewInference, Initialize 15000 1000, InitVariables]\<rparr> of
        Inl e \<Rightarrow> Inl e
      | Inr ts \<Rightarrow>
          Inr \<lparr>nb_names =
                 {''plot'', ''data_dir'', ''out_dir'', ''M'', ''d'', ''generator'', ''x_train'',
                  ''x_test'', ''x_train_generator'', ''x_ph'', ''generative_network'',
                  ''eps'', ''x'', ''discriminative_network'', ''inference'', ''optimizer'',
                  ''optimizer_d'', ''sess'', ''idx'', ''i'', ''t'', ''samples'', ''fig'',
                  ''x_batch'', ''info_dict''},
                nb_fs = w', nb_rng = ts_rng ts, nb_generator = Some (ts_gen ts),
                nb_inference = Some (initialize 15000 1000), nb_sess = Some (ts_sess ts),
                nb_i = ts_i ts, nb_files = ts_files ts, nb_trace = ts_trace ts\<rparr>)"
  using assms
  by (auto simp: notebook_def cells_def fresh_def cell_plot_def cell_setup_def
      cell_generator_def cell_data_def cell_generative_def cell_discriminative_def
      cell_inference_def cell_initialize_def cell_train_def require_def define_names_def
      emit_def split: sum.splits)

lemma sample_images_ok: "training_data (lib_mnist sample_library data_dir)"
  by (simp add: sample_library_def sample_images_def training_data_def pixels_ok_def M_def
      list_all_iff)

lemma fig_path_list:
  "map fig_path [0..<15] =
     [''/tmp/out/000.png'', ''/tmp/out/001.png'', ''/tmp/out/002.png'', ''/tmp/out/003.png'',
      ''/tmp/out/004.png'', ''/tmp/out/005.png'', ''/tmp/out/006.png'', ''/tmp/out/007.png'',
      ''/tmp/out/008.png'', ''/tmp/out/009.png'', ''/tmp/out/010.png'', ''/tmp/out/011.png'',
      ''/tmp/out/012.png'', ''/tmp/out/013.png'', ''/tmp/out/014.png'']"
proof -
  have "map fig_path [0..<15] = map snd (map (\<lambda>k. (1000 * k, fig_path k)) [0..<15])"
    by (simp add: comp_def)
  then show ?thesis
    unfolding fig_paths by simp
qed

text \<open>The whole notebook on training data.\<close>

lemma notebook_run:
  assumes "training_data (lib_mnist lib data_dir)"
  shows "\<exists>st idx r' figs.
           notebook lib w r = Inr st
         \<and> randint (int M) 16 (lib_seed lib 42) = Inr (idx, r') \<and> idx_ok idx
         \<and> nb_inference st = Some (initialize 15000 1000)
         \<and> nb_generator st = Some (gen_at (lib_mnist lib data_dir) (int M) 15000)
         \<and> nb_i st = 15
         \<and> nb_files st = figs
         \<and> map fst figs = map fig_path [0..<15]
         \<and> list_all (\<lambda>f. length (snd f) = 16) figs
         \<and> nb_trace st =
             [Define ''plot'', SetSeed 42, SetupOutDir, Define ''generator'',
              LoadData data_dir, NewGenerator, Placeholder,
              Define ''generative_network'', BuildModel,
              Define ''discriminative_network'', NewInference, NewOptimizers,
              NewInference, Initialize 15000 1000, InitVariables, DrawIdx idx]
             @ concat (map (iteration_events (initialize 15000 1000) idx) [0..<15000])"
proof -
  obtain w' where w': "setup_out_dir w = Inr w'"
    using out_dir_step by blast
  let ?st0 = "\<lparr>ts_i = 0, ts_gen = generator (lib_mnist lib data_dir) (int M),
      ts_rng = lib_seed lib 42, ts_sess = lib_session lib, ts_files = [],
      ts_trace =
        [Define ''plot'', SetSeed 42, SetupOutDir, Define ''generator'',
         LoadData data_dir, NewGenerator, Placeholder,
         Define ''generative_network'', BuildModel,
         Define ''discriminative_network'', NewInference, NewOptimizers,
         NewInference, Initialize 15000 1000, InitVariables]\<rparr>"
  have g: "ts_gen ?st0 = generator (lib_mnist lib data_dir) (int M)"
    by simp
  obtain idx r' ts figs where run:
      "randint (int M) 16 (ts_rng ?st0) = Inr (idx, r')" "idx_ok idx"
      "train_loop (lib_update lib) (initialize 15000 1000) ?st0 = Inr ts"
      "ts_gen ts = gen_at (lib_mnist lib data_dir) (int M) 15000"
      "ts_i ts = 15"
      "ts_files ts = ts_files ?st0 @ figs"
      "map fst figs = map fig_path [0..<15]"
      "list_all (\<lambda>f. length (snd f) = 16) figs"
      "ts_trace ts = ts_trace ?st0 @ [DrawIdx idx]
         @ concat (map (iteration_events (initialize 15000 1000) idx) [0..<15000])"
    using train_loop_run [OF assms g, of "lib_update lib"] by blast
  show ?thesis
    unfolding notebook_cells [OF w', of lib r]
    using run by simp
qed

text \<open>
  Claim C4 (fixed iteration count, periodic rendering). On training data (at least \<open>M\<close>
  images of 784 raw intensities, so that every batch fits the placeholder) the notebook
  runs to its end: \<^verbatim>\<open>inference.initialize\<close> has set \<open>n_iter = 15000\<close> and
  \<open>n_print = 1000\<close>; the loop makes exactly one \<^verbatim>\<open>next(x_train_generator)\<close> and exactly one
  \<^verbatim>\<open>inference.update\<close> in each of the iterations \<open>0, \<dots>, 14999\<close>, in order, so that the
  generator has been advanced 15000 times; \<^verbatim>\<open>plt.savefig\<close> is called exactly at the
  iterations \<open>0, 1000, \<dots>, 14000\<close>, and the files written are exactly the 15 figures
  \<^verbatim>\<open>000.png\<close> to \<^verbatim>\<open>014.png\<close> in the output directory, each a figure of 16 images.
\<close>

theorem training_schedule:
  assumes "training_data (lib_mnist lib data_dir)"
  shows "\<exists>st.
           notebook lib w r = Inr st
         \<and> nb_inference st = Some (initialize 15000 1000)
         \<and> n_iter (initialize 15000 1000) = 15000
         \<and> n_print (initialize 15000 1000) = 1000
         \<and> update_iters (nb_trace st) = [0..<15000]
         \<and> batch_iters (nb_trace st) = [0..<15000]
         \<and> nb_generator st = Some (gen_at (lib_mnist lib data_dir) (int M) 15000)
         \<and> nb_i st = 15
         \<and> saved_figs (nb_trace st) =
             [(0, ''/tmp/out/000.png''), (1000, ''/tmp/out/001.png''),
              (2000, ''/tmp/out/002.png''), (3000, ''/tmp/out/003.png''),
              (4000, ''/tmp/out/004.png''), (5000, ''/tmp/out/005.png''),
              (6000, ''/tmp/out/006.png''), (7000, ''/tmp/out/007.png''),
              (8000, ''/tmp/out/008.png''), (9000, ''/tmp/out/009.png''),
              (10000, ''/tmp/out/010.png''), (11000, ''/tmp/out/011.png''),
              (12000, ''/tmp/out/012.png''), (13000, ''/tmp/out/013.png''),
              (14000, ''/tmp/out/014.png'')]
         \<and> map fst (nb_files st) =
             [''/tmp/out/000.png'', ''/tmp/out/001.png'', ''/tmp/out/002.png'',
              ''/tmp/out/003.png'', ''/tmp/out/004.png'', ''/tmp/out/005.png'',
              ''/tmp/out/006.png'', ''/tmp/out/007.png'', ''/tmp/out/008.png'',
              ''/tmp/out/009.png'', ''/tmp/out/010.png'', ''/tmp/out/011.png'',
              ''/tmp/out/012.png'', ''/tmp/out/013.png'', ''/tmp/out/014.png'']
         \<and> list_all (\<lambda>f. length (snd f) = 16) (nb_files st)"
proof -
  let ?loop = "\<lambda>idx. concat (map (iteration_events (initialize 15000 1000) idx) [0..<15000])"
  obtain st idx where run: "notebook lib w r = Inr st"
      "nb_inference st = Some (initialize 15000 1000)"
      "nb_generator st = Some (gen_at (lib_mnist lib data_dir) (int M) 15000)"
      "nb_i st = 15"
      "map fst (nb_files st) = map fig_path [0..<15]"
      "list_all (\<lambda>f. length (snd f) = 16) (nb_files st)"
      "nb_trace st =
         [Define ''plot'', SetSeed 42, SetupOutDir, Define ''generator'',
          LoadData data_dir, NewGenerator, Placeholder,
          Define ''generative_network'', BuildModel,
          Define ''discriminative_network'', NewInference, NewOptimizers,
          NewInference, Initialize 15000 1000, InitVariables, DrawIdx idx] @ ?loop idx"
    using notebook_run [OF assms, of w r] by blast
  have "update_iters (nb_trace st) = [0..<15000]"
    unfolding run(7) by (simp add: update_iters_append update_iters_events)
  moreover have "batch_iters (nb_trace st) = [0..<15000]"
    unfolding run(7) by (simp add: batch_iters_append batch_iters_events)
  moreover have "saved_figs (nb_trace st) = map (\<lambda>k. (1000 * k, fig_path k)) [0..<15]"
    unfolding run(7) by (simp add: saved_figs_append saved_figs_all)
  moreover have "n_iter (initialize 15000 1000) = 15000" "n_print (initialize 15000 1000) = 1000"
    by (simp_all add: initialize_def)
  moreover note run(1,2,3,4,5,6)
  ultimately show ?thesis
    unfolding fig_paths fig_path_list by (intro exI [of _ st] conjI)
qed

text \<open>
  The sample library: two hundred images, a session with all-zero variables and an
  update step that leaves the session as it is.
\<close>

theorem training_schedule_witness:
  "training_data (lib_mnist sample_library data_dir)
   \<and> (\<exists>st.
         notebook sample_library empty_fs counting_rng = Inr st
       \<and> update_iters (nb_trace st) = [0..<15000]
       \<and> batch_iters (nb_trace st) = [0..<15000]
       \<and> nb_i st = 15
       \<and> length (nb_files st) = 15)"
proof -
  obtain st where st: "notebook sample_library empty_fs counting_rng = Inr st"
      "update_iters (nb_trace st) = [0..<15000]"
      "batch_iters (nb_trace st) = [0..<15000]"
      "nb_i st = 15"
      "map fst (nb_files st) =
         [''/tmp/out/000.png'', ''/tmp/out/001.png'', ''/tmp/out/002.png'',
          ''/tmp/out/003.png'', ''/tmp/out/004.png'', ''/tmp/out/005.png'',
          ''/tmp/out/006.png'', ''/tmp/out/007.png'', ''/tmp/out/008.png'',
          ''/tmp/out/009.png'', ''/tmp/out/010.png'', ''/tmp/out/011.png'',
          ''/tmp/out/012.png'', ''/tmp/out/013.png'', ''/tmp/out/014.png'']"
    using training_schedule [OF sample_images_ok, of empty_fs counting_rng]
    by (elim exE conjE)
  have "length (map fst (nb_files st)) = 15"
    unfolding st(5) by simp
  then have "length (nb_files st) = 15" by simp
  with sample_images_ok st(1,2,3,4) show ?thesis by blast
qed

lemma randint_may_repeat:
  "\<exists>r0 idx0 r0'. randint (int M) 16 r0 = Inr (idx0, r0') \<and> \<not> distinct idx0"
proof -
  have "randint (int M) 16 \<lparr>rng_stream = (\<lambda>n. 0), rng_pos = 0\<rparr>
      = Inr (map (\<lambda>k. 0) [0..<16], \<lparr>rng_stream = (\<lambda>n. 0), rng_pos = 16\<rparr>)"
    by (simp add: randint_def M_def)
  moreover have "\<not> distinct (map (\<lambda>k. 0::int) [0..<16])"
    by (simp add: upt_rec)
  ultimately show ?thesis by blast
qed

text \<open>
  Claim C9 (the plotted rows are fixed). In the training cell, entered with the batch
  generator over training data, the 16 indices are drawn once, by the one
  \<^verbatim>\<open>np.random.randint(M, size=16)\<close> that precedes the loop, and they lie in \<open>[0, M)\<close>. The
  loop draws no others, each of its 15 plots (iterations \<open>0, 1000, \<dots>, 14000\<close>) is
  called with these very indices, and the \<open>k\<close>-th file written is the figure that
  \<open>plot\<close> returns for the rows \<open>idx\<close> of \<^verbatim>\<open>sess.run(x)\<close>, taken in the session as the first
  \<open>1000 * k\<close> iterations have left it. Indices may repeat (a constant random stream
  draws 16 zeros).
\<close>

theorem plot_indices_fixed:
  assumes "training_data x_train" and "ts_gen st0 = generator x_train (int M)"
  shows "\<exists>idx r' st loop_events figs.
           randint (int M) 16 (ts_rng st0) = Inr (idx, r')
         \<and> length idx = 16 \<and> list_all (\<lambda>k. 0 \<le> k \<and> k < int M) idx
         \<and> train_loop upd (initialize 15000 1000) st0 = Inr st
         \<and> ts_trace st = ts_trace st0 @ DrawIdx idx # loop_events
         \<and> drawn_idx loop_events = []
         \<and> plotted loop_events = map (\<lambda>k. (1000 * k, idx)) [0..<15]
         \<and> ts_files st = ts_files st0 @ figs
         \<and> length figs = 15
         \<and> (\<forall>k<15. \<exists>st_k.
                train_iters upd (initialize 15000 1000) idx [0..<1000 * k]
                    (start_loop st0 idx r') = Inr st_k
              \<and> fst (figs ! k) = fig_path k
              \<and> plot (map (\<lambda>i. fst (run_x (ts_sess st_k)) ! nat i) idx)
                  = Inr (snd (figs ! k)))
         \<and> (\<exists>r0 idx0 r0'. randint (int M) 16 r0 = Inr (idx0, r0') \<and> \<not> distinct idx0)"
proof -
  let ?inf = "initialize 15000 1000"
  let ?loop = "\<lambda>idx. concat (map (iteration_events ?inf idx) [0..<15000])"
  obtain idx r' st figs where run:
      "randint (int M) 16 (ts_rng st0) = Inr (idx, r')" "idx_ok idx"
      "train_loop upd ?inf st0 = Inr st"
      "train_iters upd ?inf idx [0..<15000] (start_loop st0 idx r') = Inr st"
      "ts_files st = ts_files st0 @ figs"
      "map fst figs = map fig_path [0..<15]"
      "ts_trace st = ts_trace st0 @ [DrawIdx idx] @ ?loop idx"
    using train_loop_run [OF assms, of upd] by blast
  let ?st1 = "start_loop st0 idx r'"
  have g1: "ts_gen ?st1 = gen_at x_train (int M) 0" and i1: "ts_i ?st1 = 0"
      and f1: "ts_files ?st1 = ts_files st0"
    using assms(2) by (simp_all add: start_loop_def gen_at_def)
  have idx: "length idx = 16" "list_all (\<lambda>k. 0 \<le> k \<and> k < int M) idx"
    using run(2) by (simp_all add: idx_ok_def)
  have tr: "ts_trace st = ts_trace st0 @ DrawIdx idx # ?loop idx"
    using run(7) by simp
  have dr: "drawn_idx (?loop idx) = []"
    by (rule drawn_idx_events)
  have pl: "plotted (?loop idx) = map (\<lambda>k. (1000 * k, idx)) [0..<15]"
    by (rule plotted_all)
  have "length (map fst figs) = 15"
    unfolding run(6) by simp
  then have len: "length figs = 15" by simp
  have each: "\<forall>k<15. \<exists>st_k.
      train_iters upd ?inf idx [0..<1000 * k] ?st1 = Inr st_k
      \<and> fst (figs ! k) = fig_path k
      \<and> plot (map (\<lambda>i. fst (run_x (ts_sess st_k)) ! nat i) idx) = Inr (snd (figs ! k))"
  proof (intro allI impI)
    fix k :: nat
    assume k: "k < 15"
    obtain st_k before after fig where c:
        "train_iters upd ?inf idx [0..<1000 * k] ?st1 = Inr st_k"
        "plot (map (\<lambda>i. fst (run_x (ts_sess st_k)) ! nat i) idx) = Inr fig"
        "ts_files st = ts_files ?st1 @ before @ (fig_path k, fig) # after"
        "length before = k"
      using figure_content [OF assms(1) run(2) g1 i1 run(4) k] by blast
    have "figs = before @ (fig_path k, fig) # after"
      using c(3) run(5) f1 by simp
    then have "figs ! k = (fig_path k, fig)"
      using c(4) by (simp add: nth_append)
    then show "\<exists>st_k.
        train_iters upd ?inf idx [0..<1000 * k] ?st1 = Inr st_k
        \<and> fst (figs ! k) = fig_path k
        \<and> plot (map (\<lambda>i. fst (run_x (ts_sess st_k)) ! nat i) idx) = Inr (snd (figs ! k))"
      using c(1,2) by (intro exI [of _ st_k]) simp
  qed
  note rep = randint_may_repeat
  show ?thesis
    by (rule exI [of _ idx], rule exI [of _ r'], rule exI [of _ st],
        rule exI [of _ "?loop idx"], rule exI [of _ figs], intro conjI)
      (fact run(1) idx run(3) tr dr pl run(5) len each rep)+
qed

text \<open>
  The training cell on the sample images: the fourth file is the plot of the rows
  \<open>idx\<close> of the model output after 3000 iterations.
\<close>

theorem plot_indices_fixed_witness:
  "training_data sample_images
   \<and> (\<exists>idx r' st st3.
         randint (int M) 16 counting_rng = Inr (idx, r')
       \<and> length idx = 16
       \<and> train_loop keep_session (initialize 15000 1000)
            \<lparr>ts_i = 0, ts_gen = generator sample_images (int M), ts_rng = counting_rng,
             ts_sess = sample_session, ts_files = [], ts_trace = []\<rparr> = Inr st
       \<and> length (ts_files st) = 15
       \<and> train_iters keep_session (initialize 15000 1000) idx [0..<1000 * 3]
            (start_loop
               \<lparr>ts_i = 0, ts_gen = generator sample_images (int M), ts_rng = counting_rng,
                ts_sess = sample_session, ts_files = [], ts_trace = []\<rparr> idx r') = Inr st3
       \<and> fst (ts_files st ! 3) = fig_path 3
       \<and> plot (map (\<lambda>i. fst (run_x (ts_sess st3)) ! nat i) idx)
           = Inr (snd (ts_files st ! 3)))"
proof -
  let ?st0 = "\<lparr>ts_i = 0, ts_gen = generator sample_images (int M), ts_rng = counting_rng,
      ts_sess = sample_session, ts_files = [], ts_trace = []\<rparr>"
  have a: "training_data sample_images"
    using sample_images_ok by (simp add: sample_library_def)
  have b: "ts_gen ?st0 = generator sample_images (int M)"
    by simp
  obtain idx r' st figs where w:
      "randint (int M) 16 (ts_rng ?st0) = Inr (idx, r')"
      "length idx = 16"
      "train_loop keep_session (initialize 15000 1000) ?st0 = Inr st"
      "ts_files st = ts_files ?st0 @ figs"
      "length figs = 15"
      "\<forall>k<15. \<exists>st_k.
          train_iters keep_session (initialize 15000 1000) idx [0..<1000 * k]
              (start_loop ?st0 idx r') = Inr st_k
        \<and> fst (figs ! k) = fig_path k
        \<and> plot (map (\<lambda>i. fst (run_x (ts_sess st_k)) ! nat i) idx) = Inr (snd (figs ! k))"
    using plot_indices_fixed [OF a b, of keep_session] by (elim exE conjE)
  have "(3::nat) < 15" by simp
  with w(6) obtain st3 where s3:
      "train_iters keep_session (initialize 15000 1000) idx [0..<1000 * 3]
         (start_loop ?st0 idx r') = Inr st3"
      "fst (figs ! 3) = fig_path 3"
      "plot (map (\<lambda>i. fst (run_x (ts_sess st3)) ! nat i) idx) = Inr (snd (figs ! 3))"
    by blast
  have f: "ts_files st = figs"
    using w(4) by simp
  have r: "randint (int M) 16 counting_rng = Inr (idx, r')"
    using w(1) by simp
  have l: "length (ts_files st) = 15"
    using w(5) f by simp
  note r w(2,3) l s3(1) s3(2) [folded f] s3(3) [folded f]
  then have "\<exists>idx r' st st3.
         randint (int M) 16 counting_rng = Inr (idx, r')
       \<and> length idx = 16
       \<and> train_loop keep_session (initialize 15000 1000) ?st0 = Inr st
       \<and> length (ts_files st) = 15
       \<and> train_iters keep_session (initialize 15000 1000) idx [0..<1000 * 3]
            (start_loop ?st0 idx r') = Inr st3
       \<and> fst (ts_files st ! 3) = fig_path 3
       \<and> plot (map (\<lambda>i. fst (run_x (ts_sess st3)) ! nat i) idx)
           = Inr (snd (ts_files st ! 3))"
    by (intro exI [of _ idx] exI [of _ r'] exI [of _ st] exI [of _ st3] conjI)
  with a show ?thesis by (rule conjI)
qed


text \<open>A cell run before the cells that bind its names raises \<^verbatim>\<open>NameError\<close>.\<close>

lemma cells_out_of_order:
  "run_cells [cell_train lib] (fresh w r) = Inl NameError"
  "run_cells [cell_data lib] (fresh w r) = Inl NameError"
  "run_cells [cell_inference] (fresh w r) = Inl NameError"
  by (simp_all add: cell_train_def cell_data_def cell_inference_def require_def fresh_def)




end
